theory Spec2Isabelle
  imports Complex_Main "HOL-Library.Multiset"
begin

section \<open>Numbers\<close>

text \<open>
  The program is TypeScript; every quantity is a JavaScript \<^verbatim>\<open>number\<close>, an IEEE-754
  binary64 value. Two models of numbers are used.

  Where a property is about the formula that a function computes (the percentile, the
  scaler, the landmark checks, the camera loop), lengths, ratios and coordinates are exact
  reals and frame counts are integers.

  Where a property depends on the rounding of the individual operations or on the
  non-finite values (the averagers, the circumference estimator, the density curve), the
  function is modelled on the type \<open>double\<close> of the next section, operation by operation.

  \<^verbatim>\<open>Math.round(v)\<close> is the integer nearest to \<open>v\<close>, ties going up: \<open>floor (v + 1/2)\<close>.
\<close>

definition Math_round :: "real \<Rightarrow> real" where
  "Math_round v = of_int \<lfloor>v + 1 / 2\<rfloor>"

text \<open>The two rounding helpers of \<^verbatim>\<open>lib/measurements.ts\<close>: one and two decimals.\<close>

definition r :: "real \<Rightarrow> real" where
  "r n = Math_round (n * 10) / 10"

definition r2 :: "real \<Rightarrow> real" where
  "r2 n = Math_round (n * 100) / 100"

section \<open>IEEE-754 doubles\<close>

text \<open>
  A double is a finite value, one of the two infinities, or \<^verbatim>\<open>NaN\<close>. The finite values that
  occur are multiples \<open>m * 2^k\<close> with \<open>\<bar>m\<bar> < 2^53\<close> and \<open>k \<ge> -1074\<close>, below \<open>2^1024\<close> in
  magnitude. Zero carries no sign here: the two zeros of IEEE-754 are one value, and a
  division by zero behaves as the division by \<^verbatim>\<open>+0\<close>.
\<close>

datatype double = Fin real | PInf | NInf | NaN

text \<open>The integer nearest to \<open>y\<close>, the even one on a tie.\<close>

definition roundEven :: "real \<Rightarrow> int" where
  "roundEven y =
     (let f = \<lfloor>y\<rfloor>;
          d = y - of_int f
      in if d < 1 / 2 then f
         else if d > 1 / 2 then f + 1
         else if even f then f else f + 1)"

text \<open>
  The binary exponent of \<open>x\<close>, not below that of the smallest normal number, and the spacing
  of the doubles around \<open>x\<close>: 52 fraction bits below the exponent, \<open>2^-1074\<close> in the subnormal
  range.
\<close>

definition expo :: "real \<Rightarrow> int" where
  "expo x = (if x = 0 then - 1022 else max (- 1022) \<lfloor>log 2 \<bar>x\<bar>\<rfloor>)"

definition quantum :: "real \<Rightarrow> real" where
  "quantum x = 2 powi (expo x - 52)"

text \<open>Rounding to nearest, ties to even, with gradual underflow and no bound above.\<close>

definition rnd :: "real \<Rightarrow> real" where
  "rnd x = of_int (roundEven (x / quantum x)) * quantum x"

text \<open>The double that an exact result \<open>x\<close> is stored as: a rounded value from \<open>2^1024\<close> on overflows.\<close>

definition fl :: "real \<Rightarrow> double" where
  "fl x =
     (let y = rnd x
      in if y \<ge> 2 ^ 1024 then PInf
         else if y \<le> - (2 ^ 1024) then NInf
         else Fin y)"

text \<open>
  The operations of the source on doubles: unary minus, \<^verbatim>\<open>+\<close>, \<^verbatim>\<open>-\<close>, \<^verbatim>\<open>*\<close>, \<^verbatim>\<open>/\<close>,
  \<^verbatim>\<open>Math.sqrt\<close>, \<^verbatim>\<open>** 2\<close>, \<^verbatim>\<open>Math.exp\<close>, \<^verbatim>\<open>Math.round\<close> and \<^verbatim>\<open><=\<close>. Each finite case is the
  exact result stored by \<open>fl\<close>. For \<^verbatim>\<open>** 2\<close> and \<^verbatim>\<open>Math.exp\<close> the language only asks for an
  approximation; they are taken as correctly rounded.
\<close>

fun fneg :: "double \<Rightarrow> double" where
  "fneg (Fin x) = Fin (- x)"
| "fneg PInf = NInf"
| "fneg NInf = PInf"
| "fneg NaN = NaN"

fun fadd :: "double \<Rightarrow> double \<Rightarrow> double" where
  "fadd NaN b = NaN"
| "fadd a NaN = NaN"
| "fadd PInf NInf = NaN"
| "fadd NInf PInf = NaN"
| "fadd PInf b = PInf"
| "fadd a PInf = PInf"
| "fadd NInf b = NInf"
| "fadd a NInf = NInf"
| "fadd (Fin x) (Fin y) = fl (x + y)"

definition fsub :: "double \<Rightarrow> double \<Rightarrow> double" where
  "fsub a b = fadd a (fneg b)"

fun fmul :: "double \<Rightarrow> double \<Rightarrow> double" where
  "fmul NaN b = NaN"
| "fmul a NaN = NaN"
| "fmul (Fin x) (Fin y) = fl (x * y)"
| "fmul (Fin x) PInf = (if x = 0 then NaN else if 0 < x then PInf else NInf)"
| "fmul (Fin x) NInf = (if x = 0 then NaN else if 0 < x then NInf else PInf)"
| "fmul PInf (Fin y) = (if y = 0 then NaN else if 0 < y then PInf else NInf)"
| "fmul NInf (Fin y) = (if y = 0 then NaN else if 0 < y then NInf else PInf)"
| "fmul PInf PInf = PInf"
| "fmul NInf NInf = PInf"
| "fmul PInf NInf = NInf"
| "fmul NInf PInf = NInf"

fun fdiv :: "double \<Rightarrow> double \<Rightarrow> double" where
  "fdiv NaN b = NaN"
| "fdiv a NaN = NaN"
| "fdiv (Fin x) (Fin y) =
     (if y = 0 then (if x = 0 then NaN else if 0 < x then PInf else NInf)
      else fl (x / y))"
| "fdiv (Fin x) PInf = Fin 0"
| "fdiv (Fin x) NInf = Fin 0"
| "fdiv PInf (Fin y) = (if 0 \<le> y then PInf else NInf)"
| "fdiv NInf (Fin y) = (if 0 \<le> y then NInf else PInf)"
| "fdiv PInf PInf = NaN"
| "fdiv PInf NInf = NaN"
| "fdiv NInf PInf = NaN"
| "fdiv NInf NInf = NaN"

fun fsqrt :: "double \<Rightarrow> double" where
  "fsqrt (Fin x) = (if x < 0 then NaN else fl (sqrt x))"
| "fsqrt PInf = PInf"
| "fsqrt NInf = NaN"
| "fsqrt NaN = NaN"

fun fsquare :: "double \<Rightarrow> double" where
  "fsquare (Fin x) = fl (x ^ 2)"
| "fsquare PInf = PInf"
| "fsquare NInf = PInf"
| "fsquare NaN = NaN"

fun fexp :: "double \<Rightarrow> double" where
  "fexp (Fin x) = fl (exp x)"
| "fexp PInf = PInf"
| "fexp NInf = Fin 0"
| "fexp NaN = NaN"

fun fround :: "double \<Rightarrow> double" where
  "fround (Fin x) = fl (of_int \<lfloor>x + 1 / 2\<rfloor>)"
| "fround PInf = PInf"
| "fround NInf = NInf"
| "fround NaN = NaN"

fun fle :: "double \<Rightarrow> double \<Rightarrow> bool" where
  "fle NaN b = False"
| "fle a NaN = False"
| "fle (Fin x) (Fin y) = (x \<le> y)"
| "fle NInf b = True"
| "fle a PInf = True"
| "fle PInf b = False"
| "fle a NInf = False"

text \<open>The value of a finite double, 0 for the others.\<close>

fun val :: "double \<Rightarrow> real" where
  "val (Fin x) = x"
| "val PInf = 0"
| "val NInf = 0"
| "val NaN = 0"

text \<open>\<^verbatim>\<open>Math.PI\<close> is the double \<open>884279719003555 / 2^48\<close>.\<close>

definition Math_PI :: double where
  "Math_PI = Fin (884279719003555 / 2 ^ 48)"

section \<open>Measurement records\<close>

text \<open>
  The two records of pixel measurements, over the type \<open>'n\<close> of their numbers: \<open>real\<close> where
  a frame is extracted and scaled, \<open>double\<close> where frames are averaged.
\<close>

record 'n RawMeasurements =
  shoulderWidthPx :: 'n
  hipWidthPx :: 'n
  legLengthPx :: 'n
  torsoLengthPx :: 'n
  armLengthPx :: 'n
  wingspanPx :: 'n
  bodyHeightPx :: 'n

record 'n FaceMeasurements =
  earToEarPx :: 'n
  innerEyeSpacingPx :: 'n
  faceHeightPx :: 'n
  interocularRatio :: 'n
  facialWidthRatio :: 'n

text \<open>A thrown \<^verbatim>\<open>Error(message)\<close> is a value: functions that can throw return a sum.\<close>

datatype error = Error string

section \<open>Smoothing: averaging the buffered frames\<close>

text \<open>
  The averagers run on doubles. The accumulator \<^verbatim>\<open>sum\<close> (here \<open>tot\<close>) of
  \<^verbatim>\<open>averageRawMeasurements\<close> starts with every field 0.
\<close>

definition zeroRaw :: "double RawMeasurements" where
  "zeroRaw = \<lparr>shoulderWidthPx = Fin 0, hipWidthPx = Fin 0, legLengthPx = Fin 0,
     torsoLengthPx = Fin 0, armLengthPx = Fin 0, wingspanPx = Fin 0, bodyHeightPx = Fin 0\<rparr>"

text \<open>The body of the \<^verbatim>\<open>for (const f of frames)\<close> loop: seven \<^verbatim>\<open>+=\<close> on the accumulator.\<close>

definition addRaw ::
  "double RawMeasurements \<Rightarrow> double RawMeasurements \<Rightarrow> double RawMeasurements" where
  "addRaw tot f =
     \<lparr>shoulderWidthPx = fadd (shoulderWidthPx tot) (shoulderWidthPx f),
      hipWidthPx = fadd (hipWidthPx tot) (hipWidthPx f),
      legLengthPx = fadd (legLengthPx tot) (legLengthPx f),
      torsoLengthPx = fadd (torsoLengthPx tot) (torsoLengthPx f),
      armLengthPx = fadd (armLengthPx tot) (armLengthPx f),
      wingspanPx = fadd (wingspanPx tot) (wingspanPx f),
      bodyHeightPx = fadd (bodyHeightPx tot) (bodyHeightPx f)\<rparr>"

fun sumRaw ::
  "double RawMeasurements \<Rightarrow> double RawMeasurements list \<Rightarrow> double RawMeasurements" where
  "sumRaw tot [] = tot"
| "sumRaw tot (f # frames) = sumRaw (addRaw tot f) frames"

definition averageRawMeasurements ::
  "double RawMeasurements list \<Rightarrow> error + double RawMeasurements" where
  "averageRawMeasurements frames =
     (if length frames = 0 then Inl (Error ''No frames to average'')
      else
        let tot = sumRaw zeroRaw frames;
            n = Fin (real (length frames))
        in Inr \<lparr>shoulderWidthPx = fdiv (shoulderWidthPx tot) n,
                hipWidthPx = fdiv (hipWidthPx tot) n,
                legLengthPx = fdiv (legLengthPx tot) n,
                torsoLengthPx = fdiv (torsoLengthPx tot) n,
                armLengthPx = fdiv (armLengthPx tot) n,
                wingspanPx = fdiv (wingspanPx tot) n,
                bodyHeightPx = fdiv (bodyHeightPx tot) n\<rparr>)"

text \<open>
  \<^verbatim>\<open>averageFaceMeasurements\<close> sums with \<^verbatim>\<open>frames.reduce\<close> (a left fold from the zero record)
  and rounds the two averaged ratios to three decimals.
\<close>

definition zeroFace :: "double FaceMeasurements" where
  "zeroFace = \<lparr>earToEarPx = Fin 0, innerEyeSpacingPx = Fin 0, faceHeightPx = Fin 0,
     interocularRatio = Fin 0, facialWidthRatio = Fin 0\<rparr>"

definition addFace ::
  "double FaceMeasurements \<Rightarrow> double FaceMeasurements \<Rightarrow> double FaceMeasurements" where
  "addFace acc f =
     \<lparr>earToEarPx = fadd (earToEarPx acc) (earToEarPx f),
      innerEyeSpacingPx = fadd (innerEyeSpacingPx acc) (innerEyeSpacingPx f),
      faceHeightPx = fadd (faceHeightPx acc) (faceHeightPx f),
      interocularRatio = fadd (interocularRatio acc) (interocularRatio f),
      facialWidthRatio = fadd (facialWidthRatio acc) (facialWidthRatio f)\<rparr>"

definition averageFaceMeasurements ::
  "double FaceMeasurements list \<Rightarrow> error + double FaceMeasurements" where
  "averageFaceMeasurements frames =
     (if length frames = 0 then Inl (Error ''No frames to average'')
      else
        let n = Fin (real (length frames));
            tot = foldl addFace zeroFace frames
        in Inr \<lparr>earToEarPx = fdiv (earToEarPx tot) n,
                innerEyeSpacingPx = fdiv (innerEyeSpacingPx tot) n,
                faceHeightPx = fdiv (faceHeightPx tot) n,
                interocularRatio =
                  fdiv (fround (fmul (fdiv (interocularRatio tot) n) (Fin 1000))) (Fin 1000),
                facialWidthRatio =
                  fdiv (fround (fmul (fdiv (facialWidthRatio tot) n) (Fin 1000))) (Fin 1000)\<rparr>)"

section \<open>Landmarks and camera modes\<close>

text \<open>
  A landmark of \<^verbatim>\<open>lib/measurements.ts\<close>: normalized coordinates, optional depth and
  visibility. The fields \<^verbatim>\<open>x\<close>, \<^verbatim>\<open>y\<close>, \<^verbatim>\<open>z\<close> carry the prefix \<open>lm_\<close>.
\<close>

record Landmark =
  lm_x :: real
  lm_y :: real
  lm_z :: "real option"
  visibility :: "real option"

text \<open>
  \<^verbatim>\<open>ScanMode = "face" | "upper-body" | "full-body" | "chest"\<close> and
  \<^verbatim>\<open>CameraMode = ScanMode | "chest-front" | "chest-side"\<close> (\<^verbatim>\<open>lib/scanMode.ts\<close>).
\<close>

datatype ScanMode = Face | UpperBody | FullBody | Chest

datatype CameraMode = Scan ScanMode | ChestFront | ChestSide

record FrameQuality =
  valid :: bool
  reason :: string

text \<open>
  Several messages contain an em dash (U+2014). Strings are lists of bytes here, so the
  dash is its three UTF-8 bytes.
\<close>

definition em_dash :: string where
  "em_dash = [CHR 0xE2, CHR 0x80, CHR 0x94]"

definition VISIBILITY_THRESHOLD :: real where
  "VISIBILITY_THRESHOLD = 0.5"

definition FULL_BODY_LANDMARKS :: "nat list" where
  "FULL_BODY_LANDMARKS = [0, 11, 12, 23, 24, 27, 28]"

definition UPPER_BODY_LANDMARKS :: "nat list" where
  "UPPER_BODY_LANDMARKS = [11, 12, 23, 24, 15, 16]"

definition FACE_LANDMARKS :: "nat list" where
  "FACE_LANDMARKS = [0, 7, 8, 1, 4]"

section \<open>Helpers\<close>

definition dist_px :: "Landmark \<Rightarrow> Landmark \<Rightarrow> real \<Rightarrow> real \<Rightarrow> real" where
  "dist_px a b width height =
     (let dx = (lm_x a - lm_x b) * width;
          dy = (lm_y a - lm_y b) * height
      in sqrt (dx * dx + dy * dy))"

definition midpoint :: "Landmark \<Rightarrow> Landmark \<Rightarrow> Landmark" where
  "midpoint a b =
     \<lparr>lm_x = (lm_x a + lm_x b) / 2, lm_y = (lm_y a + lm_y b) / 2,
      lm_z = None, visibility = None\<rparr>"

definition isVisible :: "Landmark \<Rightarrow> bool" where
  "isVisible lm =
     (case visibility lm of None \<Rightarrow> True | Some v \<Rightarrow> v \<ge> VISIBILITY_THRESHOLD)"

text \<open>\<^verbatim>\<open>landmarks[idx]\<close>: \<^verbatim>\<open>undefined\<close> (here \<open>None\<close>) past the end of the array.\<close>

definition landmarkAt :: "Landmark list \<Rightarrow> nat \<Rightarrow> Landmark option" where
  "landmarkAt landmarks idx = (if idx < length landmarks then Some (landmarks ! idx) else None)"

text \<open>
  The loop that opens every quality check,
  \<^verbatim>\<open>for (const idx of L) { const lm = landmarks[idx]; if (!lm || !isVisible(lm)) return ... }\<close>:
  \<open>allVisible\<close> is \<open>False\<close> exactly when the loop takes its early return.
\<close>

fun allVisible :: "Landmark list \<Rightarrow> nat list \<Rightarrow> bool" where
  "allVisible landmarks [] = True"
| "allVisible landmarks (idx # rest) =
     (case landmarkAt landmarks idx of
        None \<Rightarrow> False
      | Some lm \<Rightarrow> if isVisible lm then allVisible landmarks rest else False)"

section \<open>Quality checks\<close>

definition checkFaceQuality :: "Landmark list \<Rightarrow> FrameQuality" where
  "checkFaceQuality landmarks =
     (if \<not> allVisible landmarks FACE_LANDMARKS
      then \<lparr>valid = False, reason = ''Face not fully visible''\<rparr>
      else
        let nose = landmarks ! 0;
            leftEar = landmarks ! 7;
            rightEar = landmarks ! 8;
            faceWidth = \<bar>lm_x leftEar - lm_x rightEar\<bar>
        in if faceWidth < 0.12 then \<lparr>valid = False, reason = ''Move closer to the camera''\<rparr>
           else if faceWidth > 0.70 then \<lparr>valid = False, reason = ''Move back from the camera''\<rparr>
           else if lm_x nose < 0.12 \<or> lm_x nose > 0.88
             then \<lparr>valid = False, reason = ''Centre your face in frame''\<rparr>
           else if lm_y nose < 0.08 then \<lparr>valid = False, reason = ''Tilt face down slightly''\<rparr>
           else if lm_y nose > 0.88 then \<lparr>valid = False, reason = ''Tilt face up slightly''\<rparr>
           else \<lparr>valid = True, reason = ''Good '' @ em_dash @ '' hold still''\<rparr>)"

definition checkUpperBodyQuality :: "Landmark list \<Rightarrow> FrameQuality" where
  "checkUpperBodyQuality landmarks =
     (if \<not> allVisible landmarks UPPER_BODY_LANDMARKS
      then \<lparr>valid = False, reason = ''Upper body not fully visible''\<rparr>
      else
        let leftShoulder = landmarks ! 11;
            rightShoulder = landmarks ! 12;
            leftHip = landmarks ! 23;
            rightHip = landmarks ! 24;
            margin = 0.05;
            shoulderY = min (lm_y leftShoulder) (lm_y rightShoulder)
        in if shoulderY < margin
           then \<lparr>valid = False, reason = ''Move back '' @ em_dash @ '' shoulders cut off''\<rparr>
           else
             let hipY = max (lm_y leftHip) (lm_y rightHip)
             in if hipY > 1 - margin
                then \<lparr>valid = False, reason = ''Move back '' @ em_dash @ '' hips cut off''\<rparr>
                else
                  let torsoFraction = hipY - shoulderY
                  in if torsoFraction < 0.22
                     then \<lparr>valid = False, reason = ''Move closer to the camera''\<rparr>
                     else \<lparr>valid = True, reason = ''Good framing '' @ em_dash @ '' hold still''\<rparr>)"

definition checkSideProfileQuality :: "Landmark list \<Rightarrow> FrameQuality" where
  "checkSideProfileQuality landmarks =
     (if \<not> allVisible landmarks UPPER_BODY_LANDMARKS
      then \<lparr>valid = False, reason = ''Upper body not fully visible''\<rparr>
      else
        let nose = landmarks ! 0;
            leftShoulder = landmarks ! 11;
            rightShoulder = landmarks ! 12;
            leftHip = landmarks ! 23;
            rightHip = landmarks ! 24;
            margin = 0.05
        in if min (lm_y leftShoulder) (lm_y rightShoulder) < margin
           then \<lparr>valid = False, reason = ''Move back '' @ em_dash @ '' shoulders cut off''\<rparr>
           else if max (lm_y leftHip) (lm_y rightHip) > 1 - margin
           then \<lparr>valid = False, reason = ''Move back '' @ em_dash @ '' hips cut off''\<rparr>
           else
             let shoulderMidX = (lm_x leftShoulder + lm_x rightShoulder) / 2;
                 noseDeviation = \<bar>lm_x nose - shoulderMidX\<bar>
             in if noseDeviation < 0.08
                then \<lparr>valid = False,
                       reason = ''Turn sideways '' @ em_dash @ '' show your profile''\<rparr>
                else if \<bar>lm_x leftShoulder - lm_x rightShoulder\<bar> < 0.02
                then \<lparr>valid = False,
                       reason = ''Rotate slightly so both shoulders are detected''\<rparr>
                else \<lparr>valid = True, reason = ''Good profile '' @ em_dash @ '' hold still''\<rparr>)"

definition checkFullBodyQuality :: "Landmark list \<Rightarrow> FrameQuality" where
  "checkFullBodyQuality landmarks =
     (if \<not> allVisible landmarks FULL_BODY_LANDMARKS
      then \<lparr>valid = False, reason = ''Key body parts not visible''\<rparr>
      else
        let margin = 0.08;
            nose = landmarks ! 0;
            leftAnkle = landmarks ! 27;
            rightAnkle = landmarks ! 28
        in if lm_y nose < margin
           then \<lparr>valid = False, reason = ''Move back '' @ em_dash @ '' head cut off''\<rparr>
           else if max (lm_y leftAnkle) (lm_y rightAnkle) > 1 - margin
           then \<lparr>valid = False, reason = ''Move back '' @ em_dash @ '' feet cut off''\<rparr>
           else
             let bodyHeightFraction = max (lm_y leftAnkle) (lm_y rightAnkle) - lm_y nose
             in if bodyHeightFraction < 0.4
                then \<lparr>valid = False, reason = ''Move closer '' @ em_dash @ '' too far away''\<rparr>
                else if bodyHeightFraction > 0.98
                then \<lparr>valid = False, reason = ''Move back '' @ em_dash @ '' too close''\<rparr>
                else \<lparr>valid = True, reason = ''Good framing '' @ em_dash @ '' hold still''\<rparr>)"

definition checkLandmarkQualityForMode ::
  "Landmark list \<Rightarrow> real \<Rightarrow> real \<Rightarrow> CameraMode \<Rightarrow> FrameQuality" where
  "checkLandmarkQualityForMode landmarks frameWidth frameHeight mode =
     (if length landmarks < 33 then \<lparr>valid = False, reason = ''Body not detected''\<rparr>
      else if mode = Scan Face then checkFaceQuality landmarks
      else if mode = Scan UpperBody \<or> mode = ChestFront then checkUpperBodyQuality landmarks
      else if mode = ChestSide then checkSideProfileQuality landmarks
      else checkFullBodyQuality landmarks)"

section \<open>Measurement extraction\<close>

text \<open>
  The extractors run only on frames that passed the quality check, so every index they
  read is below 33 and inside the array. Where a denominator is 0 (a frame height of 0, or
  a face whose ear and mouth midpoints coincide) the source yields \<^verbatim>\<open>Infinity\<close> or \<^verbatim>\<open>NaN\<close>
  and the quotient below is 0; the extracted records only travel through the frame buffers,
  and no property below depends on such a quotient.
\<close>

definition extractFaceMeasurements :: "Landmark list \<Rightarrow> real \<Rightarrow> real \<Rightarrow> real FaceMeasurements" where
  "extractFaceMeasurements landmarks frameWidth frameHeight =
     (let lm = landmarks; w = frameWidth; h = frameHeight;
          leftEar = lm ! 7;
          rightEar = lm ! 8;
          leftEyeInner = lm ! 1;
          rightEyeInner = lm ! 4;
          mouthLeft = lm ! 9;
          mouthRight = lm ! 10;
          earToEar = dist_px leftEar rightEar w h;
          innerEyeSpacing = dist_px leftEyeInner rightEyeInner w h;
          earMid = midpoint leftEar rightEar;
          mouthMid = midpoint mouthLeft mouthRight;
          faceHeight = dist_px earMid mouthMid w h * 1.4
      in \<lparr>earToEarPx = earToEar,
          innerEyeSpacingPx = innerEyeSpacing,
          faceHeightPx = faceHeight,
          interocularRatio = Math_round ((innerEyeSpacing / earToEar) * 1000) / 1000,
          facialWidthRatio = Math_round ((earToEar / faceHeight) * 1000) / 1000\<rparr>)"

definition extractRawMeasurements :: "Landmark list \<Rightarrow> real \<Rightarrow> real \<Rightarrow> real RawMeasurements" where
  "extractRawMeasurements landmarks frameWidth frameHeight =
     (let lm = landmarks; w = frameWidth; h = frameHeight;
          leftShoulder = lm ! 11;
          rightShoulder = lm ! 12;
          leftHip = lm ! 23;
          rightHip = lm ! 24;
          leftAnkle = lm ! 27;
          rightAnkle = lm ! 28;
          leftWrist = lm ! 15;
          rightWrist = lm ! 16;
          nose = lm ! 0;
          shoulderMid = midpoint leftShoulder rightShoulder;
          hipMid = midpoint leftHip rightHip;
          ankleMid = midpoint leftAnkle rightAnkle;
          leftArmLen = dist_px leftShoulder leftWrist w h;
          rightArmLen = dist_px rightShoulder rightWrist w h;
          leftEar = lm ! 7;
          rightEar = lm ! 8;
          earMid = midpoint leftEar rightEar;
          earToNosePx = dist_px earMid nose w h;
          headTopY = lm_y nose - (earToNosePx / h) * 1.3;
          headTop = \<lparr>lm_x = lm_x nose, lm_y = headTopY, lm_z = None, visibility = None\<rparr>
      in \<lparr>shoulderWidthPx = dist_px leftShoulder rightShoulder w h,
          hipWidthPx = dist_px leftHip rightHip w h,
          legLengthPx = dist_px hipMid ankleMid w h,
          torsoLengthPx = dist_px shoulderMid hipMid w h,
          armLengthPx = (leftArmLen + rightArmLen) / 2,
          wingspanPx = dist_px leftWrist rightWrist w h,
          bodyHeightPx = dist_px headTop ankleMid w h\<rparr>)"

definition extractUpperBodyMeasurements ::
  "Landmark list \<Rightarrow> real \<Rightarrow> real \<Rightarrow> real RawMeasurements" where
  "extractUpperBodyMeasurements landmarks frameWidth frameHeight =
     (let lm = landmarks; w = frameWidth; h = frameHeight;
          leftShoulder = lm ! 11;
          rightShoulder = lm ! 12;
          leftHip = lm ! 23;
          rightHip = lm ! 24;
          leftWrist = lm ! 15;
          rightWrist = lm ! 16;
          nose = lm ! 0;
          shoulderMid = midpoint leftShoulder rightShoulder;
          hipMid = midpoint leftHip rightHip;
          leftArmLen = dist_px leftShoulder leftWrist w h;
          rightArmLen = dist_px rightShoulder rightWrist w h;
          leftEar = lm ! 7;
          rightEar = lm ! 8;
          earMid = midpoint leftEar rightEar;
          earToNosePx = dist_px earMid nose w h;
          headTopY = lm_y nose - (earToNosePx / h) * 1.3;
          headTop = \<lparr>lm_x = lm_x nose, lm_y = headTopY, lm_z = None, visibility = None\<rparr>
      in \<lparr>shoulderWidthPx = dist_px leftShoulder rightShoulder w h,
          hipWidthPx = dist_px leftHip rightHip w h,
          legLengthPx = 0,
          torsoLengthPx = dist_px shoulderMid hipMid w h,
          armLengthPx = (leftArmLen + rightArmLen) / 2,
          wingspanPx = dist_px leftWrist rightWrist w h,
          bodyHeightPx = dist_px headTop hipMid w h\<rparr>)"

section \<open>Scaling\<close>

record Measurements =
  shoulderWidthCm :: real
  hipWidthCm :: real
  legLengthCm :: real
  torsoLengthCm :: real
  armLengthCm :: real
  wingspanCm :: real
  shoulderToHipRatio :: real
  legToTorsoRatio :: real
  armspanToHeightRatio :: real
  scaleFactor :: real
  face :: "real FaceMeasurements option"
  chestCircumferenceCm :: "real option"
  waistCircumferenceCm :: "real option"
  scanMode :: "ScanMode option"

definition scaleMeasurements :: "real RawMeasurements \<Rightarrow> real \<Rightarrow> ScanMode \<Rightarrow> Measurements" where
  "scaleMeasurements raw userHeightCm mode =
     (let effectiveHeight = (if mode = UpperBody then userHeightCm * 0.56 else userHeightCm);
          sf = (if bodyHeightPx raw > 0 then effectiveHeight / bodyHeightPx raw else 1);
          shoulderWidth = r (shoulderWidthPx raw * sf);
          hipWidth = r (hipWidthPx raw * sf);
          legLength = r (legLengthPx raw * sf);
          torsoLength = r (torsoLengthPx raw * sf);
          armLength = r (armLengthPx raw * sf);
          wingspan = r (wingspanPx raw * sf)
      in \<lparr>shoulderWidthCm = shoulderWidth,
          hipWidthCm = hipWidth,
          legLengthCm = legLength,
          torsoLengthCm = torsoLength,
          armLengthCm = armLength,
          wingspanCm = wingspan,
          shoulderToHipRatio = (if hipWidth > 0 then r2 (shoulderWidth / hipWidth) else 0),
          legToTorsoRatio = (if torsoLength > 0 then r2 (legLength / torsoLength) else 0),
          armspanToHeightRatio = (if userHeightCm > 0 then r2 (wingspan / userHeightCm) else 0),
          scaleFactor = sf,
          face = None,
          chestCircumferenceCm = None,
          waistCircumferenceCm = None,
          scanMode = Some mode\<rparr>)"

section \<open>Chest and waist circumference\<close>

text \<open>
  Ramanujan's approximation of the circumference of an ellipse, on doubles. The guard
  \<^verbatim>\<open>semiWidthCm <= 0 || semiDepthCm <= 0\<close> is false on \<^verbatim>\<open>NaN\<close>. The constant \<^verbatim>\<open>0.88\<close> of
  \<^verbatim>\<open>computeWaistCircumference\<close> is the double \<open>7926335344172073 / 2^53\<close>.
\<close>

definition computeChestCircumference :: "double \<Rightarrow> double \<Rightarrow> double" where
  "computeChestCircumference semiWidthCm semiDepthCm =
     (if fle semiWidthCm (Fin 0) \<or> fle semiDepthCm (Fin 0) then Fin 0
      else
        let a = semiWidthCm;
            b = semiDepthCm;
            h = fdiv (fsquare (fsub a b)) (fsquare (fadd a b))
        in fdiv (fround (fmul (fmul (fmul Math_PI (fadd a b))
                   (fadd (Fin 1)
                      (fdiv (fmul (Fin 3) h)
                         (fadd (Fin 10) (fsqrt (fsub (Fin 4) (fmul (Fin 3) h)))))))
                   (Fin 10)))
             (Fin 10))"

definition computeWaistCircumference :: "double \<Rightarrow> double \<Rightarrow> double" where
  "computeWaistCircumference frontHipWidthCm sideDepthCm =
     (let semiWidth = fdiv (fmul frontHipWidthCm (Fin (7926335344172073 / 2 ^ 53))) (Fin 2);
          semiDepth = fdiv sideDepthCm (Fin 2)
      in computeChestCircumference semiWidth semiDepth)"

section \<open>Statistics\<close>

definition erf :: "real \<Rightarrow> real" where
  "erf x0 =
     (let sign = (if x0 \<ge> 0 then 1 else - 1);
          x = \<bar>x0\<bar>;
          a1 = 0.254829592;
          a2 = - 0.284496736;
          a3 = 1.421413741;
          a4 = - 1.453152027;
          a5 = 1.061405429;
          p = 0.3275911;
          t = 1.0 / (1.0 + p * x);
          y = 1.0 - (((((a5 * t + a4) * t) + a3) * t + a2) * t + a1) * t * exp (- x * x)
      in sign * y)"

definition normalCDF :: "real \<Rightarrow> real" where
  "normalCDF z = 0.5 * (1 + erf (z / sqrt 2))"

definition computePercentile :: "real \<Rightarrow> real \<Rightarrow> real \<Rightarrow> real" where
  "computePercentile v mean stddev =
     (if stddev \<le> 0 then 50
      else
        let z = (v - mean) / stddev
        in Math_round (normalCDF z * 100))"

text \<open>
  \<^verbatim>\<open>normalCurvePoints\<close> is modelled on doubles; a point of the curve holds two of them.
\<close>

record point =
  pt_x :: double
  pt_y :: double

text \<open>
  \<^verbatim>\<open>parseFloat(v.toFixed(d))\<close>: \<^verbatim>\<open>toFixed\<close> takes the sign off, picks the integer \<open>n\<close> with
  \<open>n / 10^d\<close> nearest to \<open>\<bar>v\<bar>\<close> (the larger \<open>n\<close> on a tie) and prints \<open>n / 10^d\<close> with the sign,
  which \<^verbatim>\<open>parseFloat\<close> reads back as the nearest double; from \<open>10^21\<close> on, and for the
  infinities and \<^verbatim>\<open>NaN\<close>, it prints the number itself.
\<close>

fun toFixedParse :: "nat \<Rightarrow> double \<Rightarrow> double" where
  "toFixedParse d (Fin v) =
     (if \<bar>v\<bar> \<ge> 10 ^ 21 then Fin v
      else fl (sgn v * (of_int \<lfloor>\<bar>v\<bar> * 10 ^ d + 1 / 2\<rfloor> / 10 ^ d)))"
| "toFixedParse d PInf = PInf"
| "toFixedParse d NInf = NInf"
| "toFixedParse d NaN = NaN"

text \<open>
  The body of the loop of \<^verbatim>\<open>normalCurvePoints\<close> for index \<open>i\<close>; \<^verbatim>\<open>minX\<close>, \<^verbatim>\<open>maxX\<close> and
  \<^verbatim>\<open>step\<close> are computed before the loop and are the same for every index. The constant
  \<^verbatim>\<open>3.5\<close> is the double \<open>7 / 2\<close>.
\<close>

definition curveSample :: "double \<Rightarrow> double \<Rightarrow> int \<Rightarrow> int \<Rightarrow> point" where
  "curveSample mean stddev numPoints i =
     (let minX = fsub mean (fmul (Fin (7 / 2)) stddev);
          maxX = fadd mean (fmul (Fin (7 / 2)) stddev);
          step = fdiv (fsub maxX minX) (fsub (Fin (of_int numPoints)) (Fin 1));
          x = fadd minX (fmul (Fin (of_int i)) step);
          exponent = fdiv (fneg (fsquare (fsub x mean))) (fmul (Fin 2) (fsquare stddev));
          y = fmul (fdiv (Fin 1) (fmul stddev (fsqrt (fmul (Fin 2) Math_PI)))) (fexp exponent)
      in \<lparr>pt_x = toFixedParse 4 x, pt_y = toFixedParse 6 y\<rparr>)"

text \<open>\<^verbatim>\<open>for (let i = 0; i < numPoints; i++) points.push(...)\<close>, from index \<open>i\<close> on.\<close>

function curveLoop :: "double \<Rightarrow> double \<Rightarrow> int \<Rightarrow> int \<Rightarrow> point list \<Rightarrow> point list" where
  "curveLoop mean stddev numPoints i points =
     (if i < numPoints
      then curveLoop mean stddev numPoints (i + 1)
             (points @ [curveSample mean stddev numPoints i])
      else points)"
  by pat_completeness auto
termination
  by (relation "measure (\<lambda>(mean, stddev, numPoints, i, points). nat (numPoints - i))") auto

declare curveLoop.simps [simp del]

definition normalCurvePoints :: "double \<Rightarrow> double \<Rightarrow> int \<Rightarrow> point list" where
  "normalCurvePoints mean stddev numPoints = curveLoop mean stddev numPoints 0 []"

section \<open>The camera view: frame buffers and the good-frame counter\<close>

definition MAX_BUFFER :: nat where
  "MAX_BUFFER = 60"

text \<open>
  The state of \<^verbatim>\<open>CameraView\<close> that the detection loop reads and writes: the React state
  \<^verbatim>\<open>landmarks\<close>, \<^verbatim>\<open>qualityMsg\<close>, \<^verbatim>\<open>isGoodFrame\<close>, \<^verbatim>\<open>goodFrameCount\<close>, \<^verbatim>\<open>canCapture\<close>, and the
  refs \<^verbatim>\<open>rawFrameBuffer\<close>, \<^verbatim>\<open>faceFrameBuffer\<close>, \<^verbatim>\<open>goodFrameCountRef\<close>.
\<close>

record CameraView =
  landmarks :: "Landmark list option"
  qualityMsg :: string
  isGoodFrame :: bool
  goodFrameCount :: int
  canCapture :: bool
  rawFrameBuffer :: "real RawMeasurements list"
  faceFrameBuffer :: "real FaceMeasurements list"
  goodFrameCountRef :: int

text \<open>The view when the detection loop starts: the pose model has just been loaded.\<close>

definition initialView :: CameraView where
  "initialView =
     \<lparr>landmarks = None, qualityMsg = ''Position yourself in frame'', isGoodFrame = False,
      goodFrameCount = 0, canCapture = False, rawFrameBuffer = [], faceFrameBuffer = [],
      goodFrameCountRef = 0\<rparr>"

text \<open>\<^verbatim>\<open>buf.push(v); if (buf.length > MAX_BUFFER) buf.shift();\<close>\<close>

definition pushBounded :: "'a list \<Rightarrow> 'a \<Rightarrow> 'a list" where
  "pushBounded buf v =
     (let pushed = buf @ [v]
      in if length pushed > MAX_BUFFER then tl pushed else pushed)"

text \<open>
  One processed frame of \<^verbatim>\<open>tick\<close>: \<open>result\<close> is what \<^verbatim>\<open>processFrame\<close> returned (\<open>None\<close> for
  \<^verbatim>\<open>null\<close>, else the landmarks), \<open>liveW\<close> and \<open>liveH\<close> the video size. Ticks that return
  early (video not ready, less than 50 ms since the last processed frame) change nothing
  and are left out.
\<close>

definition tick ::
  "CameraMode \<Rightarrow> int \<Rightarrow> Landmark list option \<Rightarrow> real \<Rightarrow> real \<Rightarrow> CameraView \<Rightarrow> CameraView" where
  "tick mode requiredGoodFrames result liveW liveH st =
     (case result of
        None \<Rightarrow>
          st\<lparr>landmarks := None, isGoodFrame := False,
             qualityMsg := ''Body not detected '' @ em_dash @ '' face the camera'',
             goodFrameCountRef := 0, goodFrameCount := 0,
             rawFrameBuffer := [], faceFrameBuffer := [], canCapture := False\<rparr>
      | Some lms \<Rightarrow>
          let q = checkLandmarkQualityForMode lms liveW liveH mode;
              st1 = st\<lparr>landmarks := Some lms,
                       qualityMsg := (if valid q then ''Good '' @ em_dash @ '' hold still''
                                      else reason q),
                       isGoodFrame := valid q\<rparr>
          in if valid q then
               let st2 =
                     (if mode = Scan Face
                      then st1\<lparr>faceFrameBuffer :=
                                 pushBounded (faceFrameBuffer st1)
                                   (extractFaceMeasurements lms liveW liveH)\<rparr>
                      else
                        let raw = (if mode = Scan FullBody
                                   then extractRawMeasurements lms liveW liveH
                                   else extractUpperBodyMeasurements lms liveW liveH)
                        in st1\<lparr>rawFrameBuffer := pushBounded (rawFrameBuffer st1) raw\<rparr>);
                   c = min (goodFrameCountRef st2 + 1) requiredGoodFrames
               in st2\<lparr>goodFrameCountRef := c, goodFrameCount := c,
                      canCapture := (if c \<ge> requiredGoodFrames then True else canCapture st2)\<rparr>
             else
               let c = max 0 (goodFrameCountRef st1 - 2)
               in st1\<lparr>goodFrameCountRef := c, goodFrameCount := c,
                      canCapture := (if c < requiredGoodFrames then False else canCapture st1)\<rparr>)"

text \<open>A scan session: the processed frames in order, each with the video size at that time.\<close>

fun run ::
  "CameraMode \<Rightarrow> int \<Rightarrow> (Landmark list option \<times> real \<times> real) list \<Rightarrow> CameraView \<Rightarrow> CameraView"
  where
  "run mode requiredGoodFrames [] st = st"
| "run mode requiredGoodFrames ((result, liveW, liveH) # frames) st =
     run mode requiredGoodFrames frames (tick mode requiredGoodFrames result liveW liveH st)"

section \<open>Invariants of the camera view\<close>

text \<open>Neither buffer holds more than \<open>MAX_BUFFER\<close> frames.\<close>

definition buffersBounded :: "CameraView \<Rightarrow> bool" where
  "buffersBounded st =
     (length (rawFrameBuffer st) \<le> MAX_BUFFER \<and> length (faceFrameBuffer st) \<le> MAX_BUFFER)"

text \<open>The counter ref lies between 0 and the threshold \<open>req\<close>.\<close>

definition counterInRange :: "int \<Rightarrow> CameraView \<Rightarrow> bool" where
  "counterInRange req st = (0 \<le> goodFrameCountRef st \<and> goodFrameCountRef st \<le> req)"

text \<open>The counter is in range and the ready signal is on exactly when it is at the threshold.\<close>

definition readyIffFull :: "int \<Rightarrow> CameraView \<Rightarrow> bool" where
  "readyIffFull req st =
     (counterInRange req st \<and> canCapture st = (req \<le> goodFrameCountRef st))"

section \<open>Vocabulary for rounding errors\<close>

text \<open>A finite double of magnitude at most \<open>M\<close>.\<close>

definition finiteBelow :: "real \<Rightarrow> double \<Rightarrow> bool" where
  "finiteBelow M d = (case d of Fin x \<Rightarrow> \<bar>x\<bar> \<le> M | PInf \<Rightarrow> False | NInf \<Rightarrow> False | NaN \<Rightarrow> False)"

text \<open>
  A value of the type \<open>double\<close> that is one of the IEEE-754 doubles: rounding leaves a finite
  one unchanged.
\<close>

definition isDouble :: "double \<Rightarrow> bool" where
  "isDouble d = (case d of Fin x \<Rightarrow> rnd x = x \<and> \<bar>x\<bar> < 2 ^ 1024 | PInf \<Rightarrow> True | NInf \<Rightarrow> True | NaN \<Rightarrow> True)"

text \<open>Two finite doubles at most \<open>eps\<close> apart.\<close>

definition closeTo :: "real \<Rightarrow> double \<Rightarrow> double \<Rightarrow> bool" where
  "closeTo eps d d' =
     (case d of
        Fin x \<Rightarrow> (case d' of Fin y \<Rightarrow> \<bar>x - y\<bar> \<le> eps | _ \<Rightarrow> False)
      | _ \<Rightarrow> False)"

text \<open>The running sum of one field over the frames, as the loop of the averager forms it.\<close>

definition column :: "double \<Rightarrow> double list \<Rightarrow> double" where
  "column acc ds = foldl fadd acc ds"

text \<open>
  The bound on the error of one rounding step while \<open>N\<close> values of magnitude at most \<open>M\<close>
  are summed.
\<close>

definition stepErr :: "real \<Rightarrow> real \<Rightarrow> real" where
  "stepErr N M = N * M / 2 ^ 52 + 1 / 2 ^ 1074"

text \<open>The three predicates above, field by field on a frame.\<close>

definition frameBelow :: "real \<Rightarrow> double RawMeasurements \<Rightarrow> bool" where
  "frameBelow M f =
     (finiteBelow M (shoulderWidthPx f) \<and> finiteBelow M (hipWidthPx f)
      \<and> finiteBelow M (legLengthPx f) \<and> finiteBelow M (torsoLengthPx f)
      \<and> finiteBelow M (armLengthPx f) \<and> finiteBelow M (wingspanPx f)
      \<and> finiteBelow M (bodyHeightPx f))"

definition frameDouble :: "double RawMeasurements \<Rightarrow> bool" where
  "frameDouble f =
     (isDouble (shoulderWidthPx f) \<and> isDouble (hipWidthPx f)
      \<and> isDouble (legLengthPx f) \<and> isDouble (torsoLengthPx f)
      \<and> isDouble (armLengthPx f) \<and> isDouble (wingspanPx f)
      \<and> isDouble (bodyHeightPx f))"

definition framesClose ::
  "real \<Rightarrow> double RawMeasurements \<Rightarrow> double RawMeasurements \<Rightarrow> bool" where
  "framesClose eps m m' =
     (closeTo eps (shoulderWidthPx m) (shoulderWidthPx m')
      \<and> closeTo eps (hipWidthPx m) (hipWidthPx m')
      \<and> closeTo eps (legLengthPx m) (legLengthPx m')
      \<and> closeTo eps (torsoLengthPx m) (torsoLengthPx m')
      \<and> closeTo eps (armLengthPx m) (armLengthPx m')
      \<and> closeTo eps (wingspanPx m) (wingspanPx m')
      \<and> closeTo eps (bodyHeightPx m) (bodyHeightPx m'))"

text \<open>A frame with one non-zero field.\<close>

definition shoulderOnly :: "real \<Rightarrow> double RawMeasurements" where
  "shoulderOnly x = \<lparr>shoulderWidthPx = Fin x, hipWidthPx = Fin 0, legLengthPx = Fin 0,
     torsoLengthPx = Fin 0, armLengthPx = Fin 0, wingspanPx = Fin 0, bodyHeightPx = Fin 0\<rparr>"

section \<open>Sample inputs\<close>

text \<open>Concrete frames and records on which the properties below are instantiated.\<close>

definition frameA :: "real RawMeasurements" where
  "frameA = \<lparr>shoulderWidthPx = 58, hipWidthPx = 40, legLengthPx = 200, torsoLengthPx = 120,
     armLengthPx = 130, wingspanPx = 300, bodyHeightPx = 420\<rparr>"

definition frameB :: "real RawMeasurements" where
  "frameB = \<lparr>shoulderWidthPx = 60, hipWidthPx = 42, legLengthPx = 202, torsoLengthPx = 118,
     armLengthPx = 128, wingspanPx = 304, bodyHeightPx = 424\<rparr>"

definition rawSample :: "real RawMeasurements" where
  "rawSample = \<lparr>shoulderWidthPx = 57.6, hipWidthPx = 48, legLengthPx = 240, torsoLengthPx = 150,
     armLengthPx = 170, wingspanPx = 490, bodyHeightPx = 500\<rparr>"

text \<open>
  Two full-body frames of 33 visible landmarks: in \<open>headCutFrame\<close> every landmark, the nose
  included, has \<open>y = 0.05\<close>; in \<open>goodFrame\<close> the nose is at \<open>y = 0.1\<close> and the ankles at
  \<open>y = 0.9\<close>.
\<close>

definition landmarkAtY :: "real \<Rightarrow> Landmark" where
  "landmarkAtY v = \<lparr>lm_x = 0.5, lm_y = v, lm_z = None, visibility = Some 0.9\<rparr>"

definition headCutFrame :: "Landmark list" where
  "headCutFrame = replicate 33 (landmarkAtY 0.05)"

definition goodFrame :: "Landmark list" where
  "goodFrame = (replicate 33 (landmarkAtY 0.5))
       [0 := landmarkAtY 0.1, 27 := landmarkAtY 0.9, 28 := landmarkAtY 0.9]"

section \<open>Properties of the rounding\<close>

lemma roundEven_error: "\<bar>of_int (roundEven y) - y\<bar> \<le> 1 / 2"
proof -
  have "of_int \<lfloor>y\<rfloor> \<le> y" "y < of_int \<lfloor>y\<rfloor> + 1"
    by linarith+
  then show ?thesis
    by (auto simp: roundEven_def Let_def)
qed

lemma roundEven_of_int [simp]: "roundEven (of_int m) = m"
  by (simp add: roundEven_def)

lemma roundEven_nonneg: "0 \<le> y \<Longrightarrow> 0 \<le> roundEven y"
  by (auto simp: roundEven_def Let_def)

lemma roundEven_nonpos: "y \<le> 0 \<Longrightarrow> roundEven y \<le> 0"
proof -
  assume y: "y \<le> 0"
  show ?thesis
  proof (cases "y = 0")
    case True
    then show ?thesis by (simp add: roundEven_def)
  next
    case False
    with y have "y < 0" by simp
    then have "\<lfloor>y\<rfloor> \<le> - 1" by (simp add: floor_le_iff)
    then show ?thesis
      by (auto simp: roundEven_def Let_def)
  qed
qed

lemma quantum_pos [simp]: "0 < quantum x"
  by (simp add: quantum_def)

lemma quantum_nonneg [simp]: "0 \<le> quantum x"
  by (simp add: quantum_def)

lemma quantum_ne_0 [simp]: "quantum x \<noteq> 0"
  by (simp add: quantum_def)

lemma roundEven_0 [simp]: "roundEven 0 = 0"
  by (simp add: roundEven_def)

lemma powr_powi_2: "(2::real) powr (real_of_int e) = 2 powi e"
  by (simp add: powr_real_of_int')

lemma powr_powi_2_Suc: "(2::real) powr (real_of_int e + 1) = 2 powi (e + 1)"
  using powr_powi_2 [of "e + 1"] by simp

lemma floor_log2_bounds:
  assumes "x \<noteq> 0"
  shows "2 powi \<lfloor>log 2 \<bar>x\<bar>\<rfloor> \<le> \<bar>x\<bar>" "\<bar>x\<bar> < 2 powi (\<lfloor>log 2 \<bar>x\<bar>\<rfloor> + 1)"
proof -
  have pos: "0 < \<bar>x\<bar>" using assms by simp
  have "2 powr (of_int \<lfloor>log 2 \<bar>x\<bar>\<rfloor>) \<le> \<bar>x\<bar> \<and> \<bar>x\<bar> < 2 powr (of_int (\<lfloor>log 2 \<bar>x\<bar>\<rfloor> + 1))"
    using floor_log_eq_powr_iff [OF pos, of 2 "\<lfloor>log 2 \<bar>x\<bar>\<rfloor>"] by simp
  then show "2 powi \<lfloor>log 2 \<bar>x\<bar>\<rfloor> \<le> \<bar>x\<bar>" "\<bar>x\<bar> < 2 powi (\<lfloor>log 2 \<bar>x\<bar>\<rfloor> + 1)"
    by (simp_all add: powr_powi_2 powr_powi_2_Suc)
qed

lemma floor_log2_eqI:
  assumes "2 powi e \<le> \<bar>x\<bar>" "\<bar>x\<bar> < 2 powi (e + 1)"
  shows "\<lfloor>log 2 \<bar>x\<bar>\<rfloor> = e"
proof -
  have "0 < (2::real) powi e" by simp
  with assms(1) have pos: "0 < \<bar>x\<bar>" by linarith
  have "2 powr (of_int e) \<le> \<bar>x\<bar> \<and> \<bar>x\<bar> < 2 powr (of_int (e + 1))"
    using assms by (simp add: powr_powi_2 powr_powi_2_Suc)
  then show ?thesis
    using floor_log_eq_powr_iff [OF pos, of 2 e] by simp
qed

lemma expo_ge: "- 1022 \<le> expo x"
  by (simp add: expo_def)

lemma quantum_normal:
  assumes "2 powi e \<le> \<bar>x\<bar>" "\<bar>x\<bar> < 2 powi (e + 1)" "- 1022 \<le> e"
  shows "quantum x = 2 powi (e - 52)"
proof -
  have "0 < (2::real) powi e" by simp
  with assms(1) have "0 < \<bar>x\<bar>" by linarith
  then have "x \<noteq> 0" by simp
  then show ?thesis
    using floor_log2_eqI [OF assms(1,2)] assms(3) by (simp add: quantum_def expo_def)
qed

lemma quantum_subnormal:
  assumes "\<bar>x\<bar> < 2 powi (- 1022)"
  shows "quantum x = 2 powi (- 1074)"
proof (cases "x = 0")
  case True
  then show ?thesis by (simp add: quantum_def expo_def)
next
  case False
  have "\<lfloor>log 2 \<bar>x\<bar>\<rfloor> < - 1022"
  proof (rule ccontr)
    assume "\<not> \<lfloor>log 2 \<bar>x\<bar>\<rfloor> < - 1022"
    then have "(2::real) powi (- 1022) \<le> 2 powi \<lfloor>log 2 \<bar>x\<bar>\<rfloor>"
      by (intro power_int_increasing) simp_all
    with floor_log2_bounds(1) [OF False] assms show False by linarith
  qed
  then show ?thesis
    using False by (simp add: quantum_def expo_def max_def)
qed

lemma rnd_error_quantum: "\<bar>rnd x - x\<bar> \<le> quantum x / 2"
proof -
  have "\<bar>of_int (roundEven (x / quantum x)) - x / quantum x\<bar> * quantum x \<le> 1 / 2 * quantum x"
    by (intro mult_right_mono roundEven_error) simp
  moreover have "\<bar>of_int (roundEven (x / quantum x)) - x / quantum x\<bar> * quantum x =
      \<bar>of_int (roundEven (x / quantum x)) * quantum x - x\<bar>"
  proof -
    have "\<bar>of_int (roundEven (x / quantum x)) - x / quantum x\<bar> * quantum x =
        \<bar>(of_int (roundEven (x / quantum x)) - x / quantum x) * quantum x\<bar>"
      by (simp add: abs_mult)
    also have "(of_int (roundEven (x / quantum x)) - x / quantum x) * quantum x =
        of_int (roundEven (x / quantum x)) * quantum x - x"
      by (simp add: left_diff_distrib)
    finally show ?thesis .
  qed
  ultimately show ?thesis
    by (simp add: rnd_def)
qed

lemma quantum_half_le: "quantum x / 2 \<le> \<bar>x\<bar> / 2 ^ 53 + 1 / 2 ^ 1075"
proof (cases "x \<noteq> 0 \<and> - 1022 \<le> \<lfloor>log 2 \<bar>x\<bar>\<rfloor>")
  case True
  then have "quantum x = 2 powi (\<lfloor>log 2 \<bar>x\<bar>\<rfloor> - 52)"
    by (simp add: quantum_def expo_def)
  also have "\<dots> = 2 powi \<lfloor>log 2 \<bar>x\<bar>\<rfloor> / 2 ^ 52"
    by (simp add: power_int_diff)
  also have "\<dots> \<le> \<bar>x\<bar> / 2 ^ 52"
    using floor_log2_bounds(1) [of x] True by (intro divide_right_mono) simp_all
  finally have "quantum x / 2 \<le> \<bar>x\<bar> / 2 ^ 53" by simp
  moreover have "(0::real) \<le> 1 / 2 ^ 1075" by simp
  ultimately show ?thesis by linarith
next
  case False
  then have "quantum x = 2 powi (- 1074)"
    by (auto simp: quantum_def expo_def max_def)
  also have "\<dots> = 1 / 2 ^ 1074"
    by (simp add: power_int_minus_divide)
  finally have "quantum x / 2 = 1 / 2 ^ 1075" by simp
  moreover have "0 \<le> \<bar>x\<bar> / 2 ^ 53" by simp
  ultimately show ?thesis by linarith
qed

lemma rnd_error: "\<bar>rnd x - x\<bar> \<le> \<bar>x\<bar> / 2 ^ 53 + 1 / 2 ^ 1075"
  using rnd_error_quantum [of x] quantum_half_le [of x] by linarith

lemma rnd_nonneg: "0 \<le> x \<Longrightarrow> 0 \<le> rnd x"
  by (simp add: rnd_def roundEven_nonneg)

lemma rnd_nonpos: "x \<le> 0 \<Longrightarrow> rnd x \<le> 0"
proof -
  assume "x \<le> 0"
  then have "x / quantum x \<le> 0"
    by (simp add: divide_nonpos_pos)
  then have "roundEven (x / quantum x) \<le> 0"
    by (rule roundEven_nonpos)
  then have "of_int (roundEven (x / quantum x)) * quantum x \<le> 0"
    by (intro mult_nonpos_nonneg) simp_all
  then show ?thesis
    by (simp add: rnd_def)
qed

lemma rnd_0 [simp]: "rnd 0 = 0"
  by (simp add: rnd_def)

lemma floor_log2_less:
  assumes "x \<noteq> 0" "\<bar>x\<bar> < 2 powi e"
  shows "\<lfloor>log 2 \<bar>x\<bar>\<rfloor> < e"
proof (rule ccontr)
  assume "\<not> \<lfloor>log 2 \<bar>x\<bar>\<rfloor> < e"
  then have "(2::real) powi e \<le> 2 powi \<lfloor>log 2 \<bar>x\<bar>\<rfloor>"
    by (intro power_int_increasing) simp_all
  with floor_log2_bounds(1) [OF assms(1)] assms(2) show False by linarith
qed

lemma rnd_multiple:
  assumes "x = of_int n * quantum x"
  shows "rnd x = x"
proof -
  have "x / quantum x = of_int n"
    using assms by (metis nonzero_mult_div_cancel_right quantum_ne_0)
  then show ?thesis
    using assms by (simp add: rnd_def)
qed

lemma rnd_exact:
  assumes m: "\<bar>m\<bar> < 2 ^ 53" and k: "- 1074 \<le> k"
  shows "rnd (of_int m * 2 powi k) = of_int m * 2 powi k"
proof -
  define x :: real where "x = of_int m * 2 powi k"
  have e: "expo x - 52 \<le> k"
  proof (cases "x = 0")
    case True
    then show ?thesis using k by (simp add: expo_def)
  next
    case False
    have "\<bar>x\<bar> = of_int \<bar>m\<bar> * 2 powi k"
      by (simp add: x_def abs_mult)
    also have "\<dots> < 2 ^ 53 * 2 powi k"
    proof -
      have "(of_int \<bar>m\<bar> :: real) < of_int (2 ^ 53)"
        using m by (simp only: of_int_less_iff)
      then show ?thesis
        by (intro mult_strict_right_mono) simp_all
    qed
    also have "\<dots> = 2 powi (k + 53)"
      by (simp add: power_int_add)
    finally have "\<lfloor>log 2 \<bar>x\<bar>\<rfloor> < k + 53"
      by (rule floor_log2_less [OF False])
    then show ?thesis
      using False k by (simp add: expo_def)
  qed
  define j where "j = nat (k - (expo x - 52))"
  have kj: "k = (expo x - 52) + int j"
    using e by (simp add: j_def)
  have "(2::real) powi k = 2 powi (expo x - 52) * 2 powi (int j)"
    by (subst kj) (simp add: power_int_add)
  then have "x = of_int m * (quantum x * 2 ^ j)"
    by (simp add: x_def quantum_def)
  moreover have "of_int m * (quantum x * 2 ^ j) = of_int (m * 2 ^ j) * quantum x"
    by (simp add: mult_ac)
  ultimately have "x = of_int (m * 2 ^ j) * quantum x"
    by (rule trans)
  then have "rnd x = x"
    by (rule rnd_multiple)
  then show ?thesis
    by (simp add: x_def)
qed

lemma rnd_of_int: "\<bar>m\<bar> < 2 ^ 53 \<Longrightarrow> rnd (of_int m) = of_int m"
  using rnd_exact [of m 0] by simp

lemma rnd_pow2:
  assumes "- 1074 \<le> k"
  shows "rnd (2 powi k) = 2 powi k"
  using rnd_exact [of 1 k] assms by simp

lemma rnd_neg_pow2:
  assumes "- 1074 \<le> k"
  shows "rnd (- (2 powi k)) = - (2 powi k)"
  using rnd_exact [of "- 1" k] assms by simp

lemma roundEven_bounds: "\<lfloor>z\<rfloor> \<le> roundEven z" "roundEven z \<le> \<lfloor>z\<rfloor> + 1"
  by (auto simp: roundEven_def Let_def)

lemma quotient_bound: "\<bar>x / quantum x\<bar> < 2 ^ 53"
proof (cases "x = 0")
  case True
  then show ?thesis by simp
next
  case False
  have le: "\<lfloor>log 2 \<bar>x\<bar>\<rfloor> + 1 \<le> expo x + 1"
    using False by (simp add: expo_def)
  have "\<bar>x\<bar> < 2 powi (\<lfloor>log 2 \<bar>x\<bar>\<rfloor> + 1)"
    by (rule floor_log2_bounds(2) [OF False])
  also have "\<dots> \<le> 2 powi (expo x + 1)"
    using le by (intro power_int_increasing) simp_all
  also have "\<dots> = 2 ^ 53 * quantum x"
  proof -
    have "(2::real) powi (53 + (expo x - 52)) = 2 powi 53 * 2 powi (expo x - 52)"
      by (rule power_int_add) simp
    moreover have "53 + (expo x - 52) = expo x + 1" by simp
    moreover have "(2::real) powi 53 = 2 ^ 53" by simp
    ultimately show ?thesis by (simp only: quantum_def)
  qed
  finally have "\<bar>x\<bar> / quantum x < 2 ^ 53"
    by (simp add: pos_divide_less_eq)
  then show ?thesis
    by (simp add: abs_divide)
qed

lemma roundEven_quotient_bound: "\<bar>roundEven (x / quantum x)\<bar> \<le> 2 ^ 53"
proof -
  let ?z = "x / quantum x"
  have z: "- (2 ^ 53) < ?z" "?z < 2 ^ 53"
    using quotient_bound [of x] by linarith+
  have "?z < of_int (2 ^ 53)" using z(2) by simp
  then have "\<lfloor>?z\<rfloor> < 2 ^ 53" by (simp only: floor_less_iff)
  then have up: "roundEven ?z \<le> 2 ^ 53"
    using roundEven_bounds(2) [of ?z] by linarith
  have "of_int (- (2 ^ 53)) \<le> ?z" using z(1) by simp
  then have "- (2 ^ 53) \<le> \<lfloor>?z\<rfloor>" by (simp only: le_floor_iff)
  then have lo: "- (2 ^ 53) \<le> roundEven ?z"
    using roundEven_bounds(1) [of ?z] by linarith
  from up lo show ?thesis by (simp add: abs_le_iff)
qed

lemma rnd_form: "\<exists>m k. \<bar>m\<bar> < 2 ^ 53 \<and> - 1074 \<le> k \<and> rnd x = of_int m * 2 powi k"
proof -
  define n where "n = roundEven (x / quantum x)"
  define k where "k = expo x - 52"
  have k: "- 1074 \<le> k"
    using expo_ge [of x] by (simp add: k_def)
  have r: "rnd x = of_int n * 2 powi k"
    by (simp add: rnd_def n_def k_def quantum_def)
  have n: "\<bar>n\<bar> \<le> 2 ^ 53"
    unfolding n_def by (rule roundEven_quotient_bound)
  show ?thesis
  proof (cases "\<bar>n\<bar> < 2 ^ 53")
    case True
    with k r show ?thesis by blast
  next
    case False
    with n have "n = 2 ^ 53 \<or> n = - (2 ^ 53)" by linarith
    then have "rnd x = of_int (if n = 2 ^ 53 then 1 else - 1) * 2 powi (k + 53)"
      by (auto simp: r power_int_add)
    moreover have "\<bar>(if n = 2 ^ 53 then 1 else - 1 :: int)\<bar> < 2 ^ 53" by simp
    moreover have "- 1074 \<le> k + 53" using k by simp
    ultimately show ?thesis by blast
  qed
qed

lemma rnd_idem [simp]: "rnd (rnd x) = rnd x"
proof -
  obtain m k where "\<bar>m\<bar> < 2 ^ 53" "- 1074 \<le> k" "rnd x = of_int m * 2 powi k"
    using rnd_form by blast
  then show ?thesis
    using rnd_exact [of m k] by simp
qed

lemma rnd_double:
  assumes "rnd x = x"
  shows "rnd (2 * x) = 2 * x"
proof -
  obtain m k where mk: "\<bar>m\<bar> < 2 ^ 53" "- 1074 \<le> k" "rnd x = of_int m * 2 powi k"
    using rnd_form by blast
  have "2 * x = of_int m * 2 powi (k + 1)"
    using mk(3) assms by (simp add: power_int_add)
  moreover have "- 1074 \<le> k + 1" using mk(2) by simp
  ultimately show ?thesis
    using rnd_exact [of m "k + 1"] mk(1) by simp
qed

lemma rnd_abs_le: "\<bar>rnd x\<bar> \<le> \<bar>x\<bar> + \<bar>x\<bar> / 2 ^ 53 + 1 / 2 ^ 1075"
  using rnd_error [of x] by linarith

lemma fl_finite:
  assumes "\<bar>x\<bar> \<le> 2 ^ 1023"
  shows "fl x = Fin (rnd x)"
proof -
  have a: "\<bar>x\<bar> / 2 ^ 53 \<le> \<bar>x\<bar> / 2"
    by (intro divide_left_mono) simp_all
  have b: "(1::real) / 2 ^ 1075 \<le> 1"
    by (simp add: divide_le_eq_1)
  have c: "(1::real) < 2 ^ 1023 / 2"
    by simp
  have d: "(2::real) ^ 1024 = 2 * 2 ^ 1023"
    by simp
  have "\<bar>rnd x\<bar> < 2 ^ 1024"
    using rnd_abs_le [of x] a b c assms unfolding d by linarith
  then show ?thesis
    by (simp add: fl_def Let_def abs_less_iff)
qed

lemma rnd_eval:
  assumes "2 powi e \<le> \<bar>x\<bar>" "\<bar>x\<bar> < 2 powi (e + 1)" "- 1022 \<le> e"
  shows "rnd x = of_int (roundEven (x / 2 powi (e - 52))) * 2 powi (e - 52)"
  using quantum_normal [OF assms] by (simp add: rnd_def)


lemma fl_small: "\<bar>x\<bar> \<le> 1 \<Longrightarrow> fl x = Fin (rnd x)"
  by (rule fl_finite) (smt (verit) one_le_power)

lemma NaN_right [simp]: "fadd a NaN = NaN" "fmul a NaN = NaN" "fdiv a NaN = NaN"
  by (cases a; simp)+

lemma fl_0 [simp]: "fl 0 = Fin 0"
  by (simp add: fl_def)

lemma fl_int: "\<bar>m\<bar> < 2 ^ 53 \<Longrightarrow> fl (of_int m) = Fin (of_int m)"
proof -
  assume m: "\<bar>m\<bar> < 2 ^ 53"
  have "\<bar>real_of_int m\<bar> \<le> 2 ^ 53"
    using m by (metis (mono_tags) less_imp_le of_int_abs of_int_le_iff of_int_numeral of_int_power)
  moreover have "(2::real) ^ 53 \<le> 2 ^ 1023" by (rule power_increasing) simp_all
  ultimately have "\<bar>real_of_int m\<bar> \<le> 2 ^ 1023" by linarith
  then have "fl (of_int m) = Fin (rnd (of_int m))" by (rule fl_finite)
  then show ?thesis by (simp only: rnd_of_int [OF m])
qed

lemma fl_numerals [simp]:
  "fl 1 = Fin 1" "fl 2 = Fin 2" "fl 4 = Fin 4" "fl 12 = Fin 12"
  using fl_int [of 1] fl_int [of 2] fl_int [of 4] fl_int [of 12] by simp_all

lemma fl_cases:
  obtains "fl x = PInf" "0 < rnd x" | "fl x = NInf" "rnd x < 0"
  | "fl x = Fin (rnd x)" "\<bar>rnd x\<bar> < 2 ^ 1024"
  by (cases "rnd x \<ge> 2 ^ 1024"; cases "rnd x \<le> - (2 ^ 1024)")
     (auto simp: fl_def Let_def not_le intro: less_le_trans [of 0 "2 ^ 1024"])

lemma fl_rnd [simp]: "fl (rnd x) = fl x"
  by (simp add: fl_def)

lemma fmul_one: "fmul (fl y) (Fin 1) = fl y"
  by (rule fl_cases [of y]) simp_all

lemma roundEven_small: "\<bar>y\<bar> < 1 / 2 \<Longrightarrow> roundEven y = 0"
proof (cases "0 \<le> y")
  case True
  assume "\<bar>y\<bar> < 1 / 2"
  with True have "\<lfloor>y\<rfloor> = 0" by (simp add: floor_eq_iff)
  with True \<open>\<bar>y\<bar> < 1 / 2\<close> show ?thesis by (simp add: roundEven_def)
next
  case False
  assume "\<bar>y\<bar> < 1 / 2"
  with False have f: "\<lfloor>y\<rfloor> = - 1" by (simp add: floor_eq_iff)
  with False \<open>\<bar>y\<bar> < 1 / 2\<close> show ?thesis by (simp add: roundEven_def)
qed

lemma quantum_ge: "2 powi (- 1074) \<le> quantum x"
  unfolding quantum_def using expo_ge [of x] by (intro power_int_increasing) simp_all

lemma rnd_tiny:
  assumes "\<bar>x\<bar> < 1 / 2 ^ 1075"
  shows "rnd x = 0"
proof -
  define e :: real where "e = 1 / 2 ^ 1074"
  have a: "(2::real) powi (- 1074) = e"
    by (simp add: e_def power_int_minus divide_simps)
  have b: "(1::real) / 2 ^ 1075 = e / 2" by (simp add: e_def)
  have "\<bar>x\<bar> < e / 2" using assms by (simp only: b)
  moreover have "e \<le> quantum x" using quantum_ge [of x] by (simp only: a)
  ultimately have "\<bar>x\<bar> < quantum x / 2" by linarith
  then have "\<bar>x\<bar> / quantum x < 1 / 2"
    by (simp add: pos_divide_less_eq)
  then have "\<bar>x / quantum x\<bar> < 1 / 2" by simp
  then have "roundEven (x / quantum x) = 0" by (rule roundEven_small)
  then show ?thesis by (simp add: rnd_def)
qed

lemma rnd_err_bound:
  assumes x: "\<bar>x\<bar> \<le> B" and B: "1 / 2 ^ 1000 \<le> B"
  shows "\<bar>rnd x - x\<bar> \<le> B / 2 ^ 52"
proof -
  define t :: real where "t = 1 / 2 ^ 1000"
  have "(1::real) / 2 ^ 1075 \<le> 1 / 2 ^ 1000 / 2 ^ 53"
    by (simp add: divide_simps)
  also have "\<dots> \<le> B / 2 ^ 53"
    using B by (intro divide_right_mono) simp_all
  finally have e: "1 / 2 ^ 1075 \<le> B / 2 ^ 53" .
  have "\<bar>x\<bar> / 2 ^ 53 \<le> B / 2 ^ 53"
    using x by (intro divide_right_mono) simp_all
  moreover have "B / 2 ^ 53 + B / 2 ^ 53 = B / 2 ^ 52" by simp
  ultimately show ?thesis
    using rnd_error [of x] e by linarith
qed

lemma fl_finite_bound:
  assumes "\<bar>x\<bar> \<le> B" "B \<le> 2 ^ 1023"
  shows "fl x = Fin (rnd x)"
  using assms by (intro fl_finite) linarith

lemma rnd_pos:
  assumes "1 / 2 ^ 1074 \<le> x"
  shows "0 < rnd x"
proof -
  define e :: real where "e = 1 / 2 ^ 1074"
  have e0: "0 < e" by (simp add: e_def)
  have h: "(1::real) / 2 ^ 1075 = e / 2" by (simp add: e_def)
  have x: "e \<le> x" using assms by (simp only: e_def)
  have "\<bar>rnd x - x\<bar> \<le> \<bar>x\<bar> / 2 ^ 53 + e / 2"
    using rnd_error [of x] by (simp only: h)
  then show ?thesis using x e0 by (simp add: abs_if split: if_splits)
qed

section \<open>Properties of the averager\<close>

text \<open>
  Claim C5. \<^verbatim>\<open>averageRawMeasurements\<close> and \<^verbatim>\<open>averageFaceMeasurements\<close> throw
  \<^verbatim>\<open>Error("No frames to average")\<close> on the empty list, so neither returns a record there,
  in particular not the zero-filled one; and the empty list is the only input on which
  they throw.
\<close>

theorem average_empty_throws:
  "averageRawMeasurements [] = Inl (Error ''No frames to average'')
   \<and> averageFaceMeasurements [] = Inl (Error ''No frames to average'')
   \<and> averageRawMeasurements [] \<noteq> Inr zeroRaw
   \<and> averageFaceMeasurements [] \<noteq> Inr zeroFace
   \<and> (\<forall>m. averageRawMeasurements [] \<noteq> Inr m)
   \<and> (\<forall>m. averageFaceMeasurements [] \<noteq> Inr m)
   \<and> isl (averageRawMeasurements frames) = (frames = [])
   \<and> isl (averageFaceMeasurements faces) = (faces = [])"
  by (simp add: averageRawMeasurements_def averageFaceMeasurements_def Let_def)

lemma sumRaw_fields:
  "shoulderWidthPx (sumRaw acc fs) = column (shoulderWidthPx acc) (map shoulderWidthPx fs)"
  "hipWidthPx (sumRaw acc fs) = column (hipWidthPx acc) (map hipWidthPx fs)"
  "legLengthPx (sumRaw acc fs) = column (legLengthPx acc) (map legLengthPx fs)"
  "torsoLengthPx (sumRaw acc fs) = column (torsoLengthPx acc) (map torsoLengthPx fs)"
  "armLengthPx (sumRaw acc fs) = column (armLengthPx acc) (map armLengthPx fs)"
  "wingspanPx (sumRaw acc fs) = column (wingspanPx acc) (map wingspanPx fs)"
  "bodyHeightPx (sumRaw acc fs) = column (bodyHeightPx acc) (map bodyHeightPx fs)"
  by (induction fs arbitrary: acc; simp add: addRaw_def column_def)+


lemma stepErr_facts:
  assumes N: "1 \<le> N" "N \<le> 2 ^ 32" and M: "0 \<le> M" and NM: "N * M \<le> 2 ^ 1022"
  shows "0 \<le> stepErr N M"
    and "N * M + N * stepErr N M \<le> 2 ^ 1023"
    and "(N * M + N * stepErr N M) / 2 ^ 53 + 1 / 2 ^ 1075 \<le> stepErr N M"
    and "(M + stepErr N M) / 2 ^ 53 + 1 / 2 ^ 1075 \<le> stepErr N M"
proof -
  define P where "P = N * M"
  define eta :: real where "eta = 1 / 2 ^ 1074"
  define B :: real where "B = 2 ^ 1022"
  define c where "c = stepErr N M"
  have P0: "0 \<le> P" using N M by (simp add: P_def)
  have PB: "P \<le> B" using NM by (simp add: P_def B_def)
  have B2: "2 \<le> B" by (simp add: B_def)
  have BB: "(2::real) ^ 1023 = 2 * B" by (simp add: B_def)
  have eta0: "0 \<le> eta" by (simp add: eta_def)
  have eta1: "2 ^ 32 * eta \<le> 1" by (simp add: eta_def)
  have half: "(1::real) / 2 ^ 1075 = eta / 2" by (simp add: eta_def)
  have c: "c = P / 2 ^ 52 + eta"
    by (simp add: c_def stepErr_def P_def eta_def)
  have MP: "M \<le> P"
  proof -
    have "1 * M \<le> N * M" using N M by (intro mult_right_mono) simp_all
    then show ?thesis by (simp add: P_def)
  qed
  define X where "X = N * c"
  have "N * (P / 2 ^ 52) \<le> 2 ^ 32 * (P / 2 ^ 52)"
    using N P0 by (intro mult_right_mono) simp_all
  then have a: "N * (P / 2 ^ 52) \<le> P / 2 ^ 20"
    by simp
  have "N * eta \<le> 2 ^ 32 * eta"
    using N eta0 by (intro mult_right_mono) simp_all
  moreover have "X = N * (P / 2 ^ 52) + N * eta"
    by (simp add: X_def c distrib_left)
  ultimately have Nc: "X \<le> P / 2 ^ 20 + 2 ^ 32 * eta"
    using a by linarith
  show "0 \<le> stepErr N M"
    using P0 eta0 c by (simp add: c_def)
  have "P + X \<le> 2 * B"
    using Nc PB B2 eta1 P0 by simp
  then show "N * M + N * stepErr N M \<le> 2 ^ 1023"
    by (simp only: BB P_def c_def X_def)
  have "(P + X) / 2 ^ 53 + eta / 2 \<le> P / 2 ^ 52 + eta"
    using Nc P0 eta0 eta1 by simp argo
  then show "(N * M + N * stepErr N M) / 2 ^ 53 + 1 / 2 ^ 1075 \<le> stepErr N M"
    using c by (simp only: half P_def c_def X_def)
  have "(M + (P / 2 ^ 52 + eta)) / 2 ^ 53 + eta / 2 \<le> P / 2 ^ 52 + eta"
    using MP P0 eta0 M by simp argo
  then show "(M + stepErr N M) / 2 ^ 53 + 1 / 2 ^ 1075 \<le> stepErr N M"
    using c by (simp only: half c_def)
qed

lemma finiteBelow_Fin: "finiteBelow M d \<Longrightarrow> \<exists>x. d = Fin x \<and> \<bar>x\<bar> \<le> M"
  by (cases d) (simp_all add: finiteBelow_def)

lemma column_error:
  assumes N: "1 \<le> N" "N \<le> 2 ^ 32" and M: "0 \<le> M" and NM: "N * M \<le> 2 ^ 1022"
  shows "list_all (finiteBelow M) ds \<Longrightarrow> \<bar>s - S\<bar> \<le> real j * stepErr N M \<Longrightarrow>
     \<bar>S\<bar> \<le> real j * M \<Longrightarrow> real (j + length ds) \<le> N \<Longrightarrow>
     \<exists>s'. column (Fin s) ds = Fin s'
       \<and> \<bar>s' - (S + sum_list (map val ds))\<bar> \<le> real (j + length ds) * stepErr N M
       \<and> \<bar>S + sum_list (map val ds)\<bar> \<le> real (j + length ds) * M"
proof (induction ds arbitrary: s S j)
  case Nil
  then show ?case by (simp add: column_def)
next
  case (Cons d ds)
  define c where "c = stepErr N M"
  note f = stepErr_facts [OF N M NM, folded c_def]
  from Cons.prems(1) obtain x where d: "d = Fin x" and x: "\<bar>x\<bar> \<le> M"
    using finiteBelow_Fin by auto
  have jN: "real j \<le> N" "real j + 1 \<le> N"
    using Cons.prems(4) by simp_all
  have jc: "real j * c \<le> N * c"
    using jN(1) f(1) by (intro mult_right_mono)
  have jM: "real j * M + M \<le> N * M"
  proof -
    have "(real j + 1) * M \<le> N * M"
      using jN(2) M by (intro mult_right_mono)
    then show ?thesis by (simp add: distrib_right)
  qed
  have sx: "\<bar>s + x\<bar> \<le> N * M + N * c"
    using Cons.prems(2,3) x jc jM unfolding c_def [symmetric] by linarith
  then have fin: "fl (s + x) = Fin (rnd (s + x))"
    using f(2) by (intro fl_finite) linarith
  have "\<bar>rnd (s + x) - (s + x)\<bar> \<le> \<bar>s + x\<bar> / 2 ^ 53 + 1 / 2 ^ 1075"
    by (rule rnd_error)
  moreover have "\<bar>s + x\<bar> / 2 ^ 53 \<le> (N * M + N * c) / 2 ^ 53"
    using sx by (intro divide_right_mono) simp_all
  ultimately have e1: "\<bar>rnd (s + x) - (s + x)\<bar> \<le> c"
    using f(3) by linarith
  have e2: "\<bar>rnd (s + x) - (S + x)\<bar> \<le> real (Suc j) * c"
  proof -
    have "\<bar>rnd (s + x) - (S + x)\<bar> \<le> real j * c + c"
      using e1 Cons.prems(2) unfolding c_def [symmetric] by linarith
    then show ?thesis by (simp add: distrib_right)
  qed
  have e3: "\<bar>S + x\<bar> \<le> real (Suc j) * M"
  proof -
    have "\<bar>S + x\<bar> \<le> real j * M + M"
      using Cons.prems(3) x by linarith
    then show ?thesis by (simp add: distrib_right)
  qed
  have len: "real (Suc j + length ds) \<le> N"
    using Cons.prems(4) by simp
  from Cons.prems(1) have rest: "list_all (finiteBelow M) ds" by simp
  from Cons.IH [OF rest e2 [unfolded c_def] e3 len]
  obtain s' where s': "column (Fin (rnd (s + x))) ds = Fin s'"
    "\<bar>s' - (S + x + sum_list (map val ds))\<bar> \<le> real (Suc j + length ds) * stepErr N M"
    "\<bar>S + x + sum_list (map val ds)\<bar> \<le> real (Suc j + length ds) * M"
    by blast
  have col: "column (Fin s) (d # ds) = column (Fin (rnd (s + x))) ds"
    by (simp add: column_def d fin)
  have sum: "S + sum_list (map val (d # ds)) = S + x + sum_list (map val ds)"
    by (simp add: d)
  have cnt: "j + length (d # ds) = Suc j + length ds" by simp
  show ?case
    unfolding col sum cnt using s' by blast
qed

lemma mean_error:
  assumes N: "N = real (length ds)" "ds \<noteq> []" "N \<le> 2 ^ 32"
    and M: "0 \<le> M" and NM: "N * M \<le> 2 ^ 1022"
    and ds: "list_all (finiteBelow M) ds"
  shows "\<exists>v. fdiv (column (Fin 0) ds) (Fin N) = Fin v
           \<and> \<bar>v - sum_list (map val ds) / N\<bar> \<le> 2 * stepErr N M"
proof -
  define c where "c = stepErr N M"
  define T where "T = sum_list (map val ds)"
  have N1: "1 \<le> N"
    using N(1,2) by (cases ds) simp_all
  note f = stepErr_facts [OF N1 N(3) M NM, folded c_def]
  have "\<exists>s'. column (Fin 0) ds = Fin s'
       \<and> \<bar>s' - (0 + sum_list (map val ds))\<bar> \<le> real (0 + length ds) * stepErr N M
       \<and> \<bar>0 + sum_list (map val ds)\<bar> \<le> real (0 + length ds) * M"
    by (rule column_error [OF N1 N(3) M NM ds]) (simp_all add: N(1))
  then obtain s' where s': "column (Fin 0) ds = Fin s'"
    and e: "\<bar>s' - T\<bar> \<le> N * c" and t: "\<bar>T\<bar> \<le> N * M"
    by (auto simp: N(1) c_def T_def)
  have Npos: "0 < N" using N1 by simp
  have q1: "\<bar>s' / N - T / N\<bar> \<le> c"
  proof -
    have "\<bar>s' / N - T / N\<bar> = \<bar>s' - T\<bar> / N"
      using Npos by (simp add: diff_divide_distrib [symmetric])
    also have "\<dots> \<le> N * c / N"
      using e Npos by (intro divide_right_mono) simp_all
    also have "\<dots> = c" using Npos by simp
    finally show ?thesis .
  qed
  have q2: "\<bar>T / N\<bar> \<le> M"
  proof -
    have "\<bar>T / N\<bar> = \<bar>T\<bar> / N" using Npos by simp
    also have "\<dots> \<le> N * M / N"
      using t Npos by (intro divide_right_mono) simp_all
    also have "\<dots> = M" using Npos by simp
    finally show ?thesis .
  qed
  have q3: "\<bar>s' / N\<bar> \<le> M + c"
    using q1 q2 by linarith
  have MN: "M + c \<le> N * M + N * c"
  proof -
    have "1 * M \<le> N * M" "1 * c \<le> N * c"
      using N1 M f(1) by (intro mult_right_mono; simp)+
    then show ?thesis by simp
  qed
  have fin: "fl (s' / N) = Fin (rnd (s' / N))"
    using q3 MN f(2) by (intro fl_finite) linarith
  have "\<bar>rnd (s' / N) - s' / N\<bar> \<le> \<bar>s' / N\<bar> / 2 ^ 53 + 1 / 2 ^ 1075"
    by (rule rnd_error)
  moreover have "\<bar>s' / N\<bar> / 2 ^ 53 \<le> (M + c) / 2 ^ 53"
    using q3 by (intro divide_right_mono) simp_all
  ultimately have "\<bar>rnd (s' / N) - s' / N\<bar> \<le> c"
    using f(4) by linarith
  with q1 have "\<bar>rnd (s' / N) - T / N\<bar> \<le> 2 * c" by linarith
  moreover have "fdiv (column (Fin 0) ds) (Fin N) = Fin (rnd (s' / N))"
    using Npos by (simp add: s' fin)
  ultimately show ?thesis
    by (simp add: c_def T_def)
qed

lemma mean_close:
  assumes N: "N = real (length ds)" "ds \<noteq> []" "N \<le> 2 ^ 32"
    and M: "0 \<le> M" and NM: "N * M \<le> 2 ^ 1022"
    and ds: "list_all (finiteBelow M) ds"
    and perm: "mset ds' = mset ds"
  shows "closeTo (N * M / 2 ^ 50 + 1 / 2 ^ 1072)
           (fdiv (column (Fin 0) ds) (Fin N)) (fdiv (column (Fin 0) ds') (Fin N))"
proof -
  have len: "length ds' = length ds"
    using perm by (rule mset_eq_length)
  have ne: "ds' \<noteq> []" using len N(2) by auto
  have "set ds' = set ds" using perm by (rule mset_eq_setD)
  then have ds': "list_all (finiteBelow M) ds'"
    using ds by (simp add: list_all_iff)
  have sum: "sum_list (map val ds') = sum_list (map val ds)"
    by (metis perm mset_map sum_mset_sum_list)
  obtain v where v: "fdiv (column (Fin 0) ds) (Fin N) = Fin v"
    "\<bar>v - sum_list (map val ds) / N\<bar> \<le> 2 * stepErr N M"
    using mean_error [OF N M NM ds] by blast
  obtain v' where v': "fdiv (column (Fin 0) ds') (Fin N) = Fin v'"
    "\<bar>v' - sum_list (map val ds') / N\<bar> \<le> 2 * stepErr N M"
    using mean_error [OF _ ne N(3) M NM ds'] N(1) len by auto
  have "\<bar>v - v'\<bar> \<le> 4 * stepErr N M"
    using v(2) v'(2) [unfolded sum] by linarith
  also have "4 * stepErr N M = N * M / 2 ^ 50 + 1 / 2 ^ 1072"
    by (simp add: stepErr_def)
  finally show ?thesis
    by (simp add: closeTo_def v(1) v'(1))
qed

lemma rnd_sum_01_02: "rnd (3602879701896397 / 2 ^ 55 + 3602879701896397 / 2 ^ 54) = 5404319552844596 / 2 ^ 54"
  by (subst rnd_eval [where e = "- 2"]) (simp_all add: roundEven_def)

lemma rnd_sum_03: "rnd (5404319552844596 / 2 ^ 54 + 5404319552844595 / 2 ^ 54) = 5404319552844596 / 2 ^ 53"
  by (subst rnd_eval [where e = "- 1"]) (simp_all add: roundEven_def)

lemma rnd_div_fwd: "rnd (5404319552844596 / 2 ^ 53 / 3) = 7205759403792795 / 2 ^ 55"
  by (subst rnd_eval [where e = "- 3"]) (simp_all add: roundEven_def)

lemma rnd_sum_03_02: "rnd (5404319552844595 / 2 ^ 54 + 3602879701896397 / 2 ^ 54) = 1 / 2"
proof -
  have "(5404319552844595 / 2 ^ 54 + 3602879701896397 / 2 ^ 54 :: real) = 2 powi (- 1)"
    by (simp add: power_int_minus_divide)
  then show ?thesis
    using rnd_pow2 [of "- 1"] by (simp add: power_int_minus_divide)
qed

lemma rnd_sum_01: "rnd (1 / 2 + 3602879701896397 / 2 ^ 55) = 5404319552844595 / 2 ^ 53"
  by (subst rnd_eval [where e = "- 1"]) (simp_all add: roundEven_def)

lemma rnd_div_rev: "rnd (5404319552844595 / 2 ^ 53 / 3) = 7205759403792793 / 2 ^ 55"
  by (subst rnd_eval [where e = "- 3"]) (simp_all add: roundEven_def)

lemma rnd_01: "rnd (3602879701896397 / 2 ^ 55) = 3602879701896397 / 2 ^ 55"
  using rnd_exact [of 3602879701896397 "- 55"] by (simp add: power_int_minus_divide)

lemma rnd_03: "rnd (5404319552844595 / 2 ^ 54) = 5404319552844595 / 2 ^ 54"
  using rnd_exact [of 5404319552844595 "- 54"] by (simp add: power_int_minus_divide)


lemma fadd_Fin: "\<bar>x + y\<bar> \<le> 1 \<Longrightarrow> rnd (x + y) = z \<Longrightarrow> fadd (Fin x) (Fin y) = Fin z"
  by (simp add: fl_small)

lemma fdiv_Fin:
  "y \<noteq> 0 \<Longrightarrow> \<bar>x / y\<bar> \<le> 1 \<Longrightarrow> rnd (x / y) = z \<Longrightarrow> fdiv (Fin x) (Fin y) = Fin z"
  by (simp add: fl_small)

lemma average3:
  "averageRawMeasurements [f1, f2, f3] =
     Inr \<lparr>shoulderWidthPx = fdiv (fadd (fadd (fadd (Fin 0) (shoulderWidthPx f1))
                (shoulderWidthPx f2)) (shoulderWidthPx f3)) (Fin 3),
          hipWidthPx = fdiv (fadd (fadd (fadd (Fin 0) (hipWidthPx f1))
                (hipWidthPx f2)) (hipWidthPx f3)) (Fin 3),
          legLengthPx = fdiv (fadd (fadd (fadd (Fin 0) (legLengthPx f1))
                (legLengthPx f2)) (legLengthPx f3)) (Fin 3),
          torsoLengthPx = fdiv (fadd (fadd (fadd (Fin 0) (torsoLengthPx f1))
                (torsoLengthPx f2)) (torsoLengthPx f3)) (Fin 3),
          armLengthPx = fdiv (fadd (fadd (fadd (Fin 0) (armLengthPx f1))
                (armLengthPx f2)) (armLengthPx f3)) (Fin 3),
          wingspanPx = fdiv (fadd (fadd (fadd (Fin 0) (wingspanPx f1))
                (wingspanPx f2)) (wingspanPx f3)) (Fin 3),
          bodyHeightPx = fdiv (fadd (fadd (fadd (Fin 0) (bodyHeightPx f1))
                (bodyHeightPx f2)) (bodyHeightPx f3)) (Fin 3)\<rparr>"
  by (simp add: averageRawMeasurements_def Let_def addRaw_def zeroRaw_def)

lemma shoulderOnly_sel:
  "shoulderWidthPx (shoulderOnly x) = Fin x"
  "hipWidthPx (shoulderOnly x) = Fin 0"
  "legLengthPx (shoulderOnly x) = Fin 0"
  "torsoLengthPx (shoulderOnly x) = Fin 0"
  "armLengthPx (shoulderOnly x) = Fin 0"
  "wingspanPx (shoulderOnly x) = Fin 0"
  "bodyHeightPx (shoulderOnly x) = Fin 0"
  by (simp_all add: shoulderOnly_def)

lemma zero_column: "fdiv (fadd (fadd (fadd (Fin 0) (Fin 0)) (Fin 0)) (Fin 0)) (Fin 3) = Fin 0"
  by simp

lemma average_forward:
  "averageRawMeasurements
     [shoulderOnly (3602879701896397 / 2 ^ 55), shoulderOnly (3602879701896397 / 2 ^ 54),
      shoulderOnly (5404319552844595 / 2 ^ 54)] =
   Inr (shoulderOnly (7205759403792795 / 2 ^ 55))"
proof -
  have a1: "fadd (Fin 0) (Fin (3602879701896397 / 2 ^ 55)) = Fin (3602879701896397 / 2 ^ 55)"
    using rnd_01 by (intro fadd_Fin) simp_all
  have a2: "fadd (Fin (3602879701896397 / 2 ^ 55)) (Fin (3602879701896397 / 2 ^ 54)) =
      Fin (5404319552844596 / 2 ^ 54)"
    by (rule fadd_Fin [OF _ rnd_sum_01_02]) simp
  have a3: "fadd (Fin (5404319552844596 / 2 ^ 54)) (Fin (5404319552844595 / 2 ^ 54)) =
      Fin (5404319552844596 / 2 ^ 53)"
    by (rule fadd_Fin [OF _ rnd_sum_03]) simp
  have a4: "fdiv (Fin (5404319552844596 / 2 ^ 53)) (Fin 3) = Fin (7205759403792795 / 2 ^ 55)"
    by (rule fdiv_Fin [OF _ _ rnd_div_fwd]) simp_all
  have "averageRawMeasurements
     [shoulderOnly (3602879701896397 / 2 ^ 55), shoulderOnly (3602879701896397 / 2 ^ 54),
      shoulderOnly (5404319552844595 / 2 ^ 54)] =
     Inr \<lparr>shoulderWidthPx = Fin (7205759403792795 / 2 ^ 55), hipWidthPx = Fin 0,
       legLengthPx = Fin 0, torsoLengthPx = Fin 0, armLengthPx = Fin 0, wingspanPx = Fin 0,
       bodyHeightPx = Fin 0\<rparr>"
    by (simp only: average3 shoulderOnly_sel a1 a2 a3 a4 zero_column)
  then show ?thesis
    by (simp only: shoulderOnly_def)
qed

lemma average_reversed:
  "averageRawMeasurements
     [shoulderOnly (5404319552844595 / 2 ^ 54), shoulderOnly (3602879701896397 / 2 ^ 54),
      shoulderOnly (3602879701896397 / 2 ^ 55)] =
   Inr (shoulderOnly (7205759403792793 / 2 ^ 55))"
proof -
  have a1: "fadd (Fin 0) (Fin (5404319552844595 / 2 ^ 54)) = Fin (5404319552844595 / 2 ^ 54)"
    using rnd_03 by (intro fadd_Fin) simp_all
  have a2: "fadd (Fin (5404319552844595 / 2 ^ 54)) (Fin (3602879701896397 / 2 ^ 54)) =
      Fin (1 / 2)"
    by (rule fadd_Fin [OF _ rnd_sum_03_02]) simp
  have a3: "fadd (Fin (1 / 2)) (Fin (3602879701896397 / 2 ^ 55)) =
      Fin (5404319552844595 / 2 ^ 53)"
    by (rule fadd_Fin [OF _ rnd_sum_01]) simp
  have a4: "fdiv (Fin (5404319552844595 / 2 ^ 53)) (Fin 3) = Fin (7205759403792793 / 2 ^ 55)"
    by (rule fdiv_Fin [OF _ _ rnd_div_rev]) simp_all
  have "averageRawMeasurements
     [shoulderOnly (5404319552844595 / 2 ^ 54), shoulderOnly (3602879701896397 / 2 ^ 54),
      shoulderOnly (3602879701896397 / 2 ^ 55)] =
     Inr \<lparr>shoulderWidthPx = Fin (7205759403792793 / 2 ^ 55), hipWidthPx = Fin 0,
       legLengthPx = Fin 0, torsoLengthPx = Fin 0, armLengthPx = Fin 0, wingspanPx = Fin 0,
       bodyHeightPx = Fin 0\<rparr>"
    by (simp only: average3 shoulderOnly_sel a1 a2 a3 a4 zero_column)
  then show ?thesis
    by (simp only: shoulderOnly_def)
qed

text \<open>
  The claim as first stated (the same result on every permutation) fails on doubles: the
  shoulder widths \<^verbatim>\<open>0.1\<close>, \<^verbatim>\<open>0.2\<close>, \<^verbatim>\<open>0.3\<close>, that is \<open>3602879701896397 / 2^55\<close>,
  \<open>3602879701896397 / 2^54\<close> and \<open>5404319552844595 / 2^54\<close>, average to
  \<^verbatim>\<open>0.20000000000000004\<close> in this order and to \<^verbatim>\<open>0.19999999999999998\<close> in the reverse order.
\<close>

theorem average_order_independent_counterexample:
  "mset [shoulderOnly (5404319552844595 / 2 ^ 54), shoulderOnly (3602879701896397 / 2 ^ 54),
         shoulderOnly (3602879701896397 / 2 ^ 55)] =
   mset [shoulderOnly (3602879701896397 / 2 ^ 55), shoulderOnly (3602879701896397 / 2 ^ 54),
         shoulderOnly (5404319552844595 / 2 ^ 54)]
   \<and> averageRawMeasurements
       [shoulderOnly (3602879701896397 / 2 ^ 55), shoulderOnly (3602879701896397 / 2 ^ 54),
        shoulderOnly (5404319552844595 / 2 ^ 54)] =
     Inr (shoulderOnly (7205759403792795 / 2 ^ 55))
   \<and> averageRawMeasurements
       [shoulderOnly (5404319552844595 / 2 ^ 54), shoulderOnly (3602879701896397 / 2 ^ 54),
        shoulderOnly (3602879701896397 / 2 ^ 55)] =
     Inr (shoulderOnly (7205759403792793 / 2 ^ 55))
   \<and> averageRawMeasurements
       [shoulderOnly (3602879701896397 / 2 ^ 55), shoulderOnly (3602879701896397 / 2 ^ 54),
        shoulderOnly (5404319552844595 / 2 ^ 54)] \<noteq>
     averageRawMeasurements
       [shoulderOnly (5404319552844595 / 2 ^ 54), shoulderOnly (3602879701896397 / 2 ^ 54),
        shoulderOnly (3602879701896397 / 2 ^ 55)]"
proof -
  have "shoulderOnly (7205759403792795 / 2 ^ 55) \<noteq> shoulderOnly (7205759403792793 / 2 ^ 55)"
    by (simp add: shoulderOnly_def)
  then show ?thesis
    by (simp only: average_forward average_reversed) (simp add: add_mset_commute)
qed

lemma closeTo_fields:
  assumes N: "N = real (length frames)" "frames \<noteq> []" "N \<le> 2 ^ 32"
    and M: "0 \<le> M" and NM: "N * M \<le> 2 ^ 1022"
    and below: "list_all (\<lambda>f. finiteBelow M (g f)) frames"
    and perm: "mset frames' = mset frames"
  shows "closeTo (N * M / 2 ^ 50 + 1 / 2 ^ 1072)
           (fdiv (column (Fin 0) (map g frames)) (Fin N))
           (fdiv (column (Fin 0) (map g frames')) (Fin N))"
proof (rule mean_close [OF _ _ N(3) M NM])
  show "N = real (length (map g frames))" using N(1) by simp
  show "map g frames \<noteq> []" using N(2) by simp
  show "list_all (finiteBelow M) (map g frames)"
    using below by (simp add: list_all_iff)
  show "mset (map g frames') = mset (map g frames)"
    using perm by (metis mset_map)
qed

lemma average_columns:
  "frames \<noteq> [] \<Longrightarrow> averageRawMeasurements frames =
     Inr \<lparr>shoulderWidthPx = fdiv (column (Fin 0) (map shoulderWidthPx frames)) (Fin (real (length frames))),
          hipWidthPx = fdiv (column (Fin 0) (map hipWidthPx frames)) (Fin (real (length frames))),
          legLengthPx = fdiv (column (Fin 0) (map legLengthPx frames)) (Fin (real (length frames))),
          torsoLengthPx = fdiv (column (Fin 0) (map torsoLengthPx frames)) (Fin (real (length frames))),
          armLengthPx = fdiv (column (Fin 0) (map armLengthPx frames)) (Fin (real (length frames))),
          wingspanPx = fdiv (column (Fin 0) (map wingspanPx frames)) (Fin (real (length frames))),
          bodyHeightPx = fdiv (column (Fin 0) (map bodyHeightPx frames)) (Fin (real (length frames)))\<rparr>"
  by (simp add: averageRawMeasurements_def Let_def sumRaw_fields zeroRaw_def)

lemma average_permutation_close:
  assumes ne: "frames \<noteq> []" and len: "length frames < 2 ^ 32"
    and perm: "mset frames' = mset frames"
    and below: "list_all (frameBelow M) frames"
    and NM: "real (length frames) * M \<le> 2 ^ 1022"
  shows "\<exists>m m'. averageRawMeasurements frames = Inr m
           \<and> averageRawMeasurements frames' = Inr m'
           \<and> framesClose (real (length frames) * M / 2 ^ 50 + 1 / 2 ^ 1072) m m'"
proof -
  define N where "N = real (length frames)"
  have N: "N = real (length frames)" by (rule N_def)
  have len': "length frames' = length frames"
    using perm by (rule mset_eq_length)
  have ne': "frames' \<noteq> []" using len' ne by auto
  have N32: "N \<le> 2 ^ 32"
  proof -
    have "real (length frames) \<le> real ((2::nat) ^ 32)"
      using len by (intro of_nat_mono) simp
    then show ?thesis by (simp add: N_def)
  qed
  obtain f fs where fr: "frames = f # fs" using ne by (cases frames) auto
  have "finiteBelow M (shoulderWidthPx f)"
    using below by (simp add: fr frameBelow_def)
  then have M: "0 \<le> M"
    by (auto dest!: finiteBelow_Fin)
  have NM': "N * M \<le> 2 ^ 1022" using NM by (simp add: N_def)
  have b: "list_all (\<lambda>f. finiteBelow M (shoulderWidthPx f)) frames"
    "list_all (\<lambda>f. finiteBelow M (hipWidthPx f)) frames"
    "list_all (\<lambda>f. finiteBelow M (legLengthPx f)) frames"
    "list_all (\<lambda>f. finiteBelow M (torsoLengthPx f)) frames"
    "list_all (\<lambda>f. finiteBelow M (armLengthPx f)) frames"
    "list_all (\<lambda>f. finiteBelow M (wingspanPx f)) frames"
    "list_all (\<lambda>f. finiteBelow M (bodyHeightPx f)) frames"
    using below by (simp_all add: list_all_iff frameBelow_def)
  note c = b [THEN closeTo_fields [OF N ne N32 M NM' _ perm]]
  show ?thesis
    unfolding average_columns [OF ne] average_columns [OF ne'] len'
    using c by (simp add: framesClose_def N_def)
qed

lemma mean_of_copies:
  assumes d: "isDouble d" and b: "finiteBelow (2 ^ 1022) d"
  shows "fdiv (fadd (fadd (Fin 0) d) d) (Fin 2) = d" and "fdiv (fadd (Fin 0) d) (Fin 1) = d"
proof -
  obtain x where x: "d = Fin x" "\<bar>x\<bar> \<le> 2 ^ 1022"
    using finiteBelow_Fin [OF b] by blast
  have r: "rnd x = x" using d by (simp add: isDouble_def x)
  have r2: "rnd (2 * x) = 2 * x" using r by (rule rnd_double)
  have "\<bar>x\<bar> \<le> 2 ^ 1023"
  proof -
    have "(2::real) ^ 1022 \<le> 2 ^ 1023" by (rule power_increasing) simp_all
    then show ?thesis using x(2) by linarith
  qed
  then have f1: "fl x = Fin x" by (simp add: fl_finite r)
  have p: "(2::real) ^ 1023 = 2 * 2 ^ 1022" by simp
  have "\<bar>2 * x\<bar> = 2 * \<bar>x\<bar>" by simp
  then have "\<bar>2 * x\<bar> \<le> 2 ^ 1023" using x(2) p by linarith
  then have f2: "fl (2 * x) = Fin (2 * x)" by (simp add: fl_finite r2)
  have xx: "x + x = 2 * x" by simp
  show "fdiv (fadd (fadd (Fin 0) d) d) (Fin 2) = d"
    by (simp add: x f1 xx f2)
  show "fdiv (fadd (Fin 0) d) (Fin 1) = d"
    by (simp add: x f1)
qed

lemma average_of_copies:
  assumes d: "frameDouble a" and b: "frameBelow (2 ^ 1022) a"
  shows "averageRawMeasurements [a, a] = Inr a" and "averageRawMeasurements [a] = Inr a"
proof -
  note m = mean_of_copies
  have s: "fdiv (fadd (fadd (Fin 0) (shoulderWidthPx a)) (shoulderWidthPx a)) (Fin 2) = shoulderWidthPx a"
      "fdiv (fadd (Fin 0) (shoulderWidthPx a)) (Fin 1) = shoulderWidthPx a"
      "fdiv (fadd (fadd (Fin 0) (hipWidthPx a)) (hipWidthPx a)) (Fin 2) = hipWidthPx a"
      "fdiv (fadd (Fin 0) (hipWidthPx a)) (Fin 1) = hipWidthPx a"
      "fdiv (fadd (fadd (Fin 0) (legLengthPx a)) (legLengthPx a)) (Fin 2) = legLengthPx a"
      "fdiv (fadd (Fin 0) (legLengthPx a)) (Fin 1) = legLengthPx a"
      "fdiv (fadd (fadd (Fin 0) (torsoLengthPx a)) (torsoLengthPx a)) (Fin 2) = torsoLengthPx a"
      "fdiv (fadd (Fin 0) (torsoLengthPx a)) (Fin 1) = torsoLengthPx a"
      "fdiv (fadd (fadd (Fin 0) (armLengthPx a)) (armLengthPx a)) (Fin 2) = armLengthPx a"
      "fdiv (fadd (Fin 0) (armLengthPx a)) (Fin 1) = armLengthPx a"
      "fdiv (fadd (fadd (Fin 0) (wingspanPx a)) (wingspanPx a)) (Fin 2) = wingspanPx a"
      "fdiv (fadd (Fin 0) (wingspanPx a)) (Fin 1) = wingspanPx a"
      "fdiv (fadd (fadd (Fin 0) (bodyHeightPx a)) (bodyHeightPx a)) (Fin 2) = bodyHeightPx a"
      "fdiv (fadd (Fin 0) (bodyHeightPx a)) (Fin 1) = bodyHeightPx a"
    using d b by (simp_all add: frameDouble_def frameBelow_def mean_of_copies)
  show "averageRawMeasurements [a, a] = Inr a"
    by (simp add: averageRawMeasurements_def Let_def addRaw_def zeroRaw_def s)
  show "averageRawMeasurements [a] = Inr a"
    by (simp add: averageRawMeasurements_def Let_def addRaw_def zeroRaw_def s)
qed

text \<open>
  Claim C6, amended. Take a non-empty list of fewer than \<open>2^32\<close> frames (the bound on the
  length of a JavaScript array) whose fields are finite with magnitude at most \<open>M\<close>, with
  \<open>length frames * M \<le> 2^1022\<close> so that no running sum overflows. Then
  \<^verbatim>\<open>averageRawMeasurements\<close> returns a record on the list and on every permutation of it, and
  the two records differ, in every field, by at most \<open>length frames * M / 2^50 + 2^-1072\<close>.
  And for a frame \<open>a\<close> whose fields are doubles of magnitude at most \<open>2^1022\<close>, averaging
  \<open>[a, a]\<close> equals averaging \<open>[a]\<close>, and both give \<open>a\<close> back.
\<close>

theorem average_order_independent:
  "(frames \<noteq> [] \<and> length frames < 2 ^ 32 \<and> mset frames' = mset frames
      \<and> list_all (frameBelow M) frames \<and> real (length frames) * M \<le> 2 ^ 1022
    \<longrightarrow> (\<exists>m m'. averageRawMeasurements frames = Inr m
           \<and> averageRawMeasurements frames' = Inr m'
           \<and> framesClose (real (length frames) * M / 2 ^ 50 + 1 / 2 ^ 1072) m m'))
   \<and> (frameDouble a \<and> frameBelow (2 ^ 1022) a
    \<longrightarrow> averageRawMeasurements [a, a] = averageRawMeasurements [a]
        \<and> averageRawMeasurements [a] = Inr a)"
  using average_permutation_close [of frames frames' M] average_of_copies [of a]
  by simp

lemma shoulderOnly_below: "\<bar>x\<bar> \<le> M \<Longrightarrow> frameBelow M (shoulderOnly x)"
  by (simp add: frameBelow_def finiteBelow_def shoulderOnly_def)

lemma shoulderOnly_double: "rnd x = x \<Longrightarrow> \<bar>x\<bar> < 2 ^ 1024 \<Longrightarrow> frameDouble (shoulderOnly x)"
  by (simp add: frameDouble_def isDouble_def shoulderOnly_def)

theorem average_order_independent_witness:
  "[shoulderOnly (1 / 2), shoulderOnly (1 / 4)] \<noteq> []
   \<and> length [shoulderOnly (1 / 2), shoulderOnly (1 / 4)] < 2 ^ 32
   \<and> mset [shoulderOnly (1 / 4), shoulderOnly (1 / 2)] =
      mset [shoulderOnly (1 / 2), shoulderOnly (1 / 4)]
   \<and> list_all (frameBelow 1) [shoulderOnly (1 / 2), shoulderOnly (1 / 4)]
   \<and> real (length [shoulderOnly (1 / 2), shoulderOnly (1 / 4)]) * 1 \<le> 2 ^ 1022
   \<and> (\<exists>m m'. averageRawMeasurements [shoulderOnly (1 / 2), shoulderOnly (1 / 4)] = Inr m
         \<and> averageRawMeasurements [shoulderOnly (1 / 4), shoulderOnly (1 / 2)] = Inr m'
         \<and> framesClose
             (real (length [shoulderOnly (1 / 2), shoulderOnly (1 / 4)]) * 1 / 2 ^ 50 + 1 / 2 ^ 1072)
             m m')
   \<and> frameDouble (shoulderOnly (1 / 2)) \<and> frameBelow (2 ^ 1022) (shoulderOnly (1 / 2))
   \<and> averageRawMeasurements [shoulderOnly (1 / 2), shoulderOnly (1 / 2)] =
       averageRawMeasurements [shoulderOnly (1 / 2)]
   \<and> averageRawMeasurements [shoulderOnly (1 / 2)] = Inr (shoulderOnly (1 / 2))"
proof -
  have h: "rnd (1 / 2) = 1 / 2"
    using rnd_pow2 [of "- 1"] by (simp add: power_int_minus)
  have d: "frameDouble (shoulderOnly (1 / 2))"
    by (rule shoulderOnly_double [OF h]) simp
  have b: "frameBelow (2 ^ 1022) (shoulderOnly (1 / 2))"
  proof (rule shoulderOnly_below)
    have "(1::real) \<le> 2 ^ 1022" by (rule one_le_power) simp
    then show "\<bar>1 / 2 :: real\<bar> \<le> 2 ^ 1022" by simp
  qed
  have p: "mset [shoulderOnly (1 / 4), shoulderOnly (1 / 2)] =
      mset [shoulderOnly (1 / 2), shoulderOnly (1 / 4)]"
    by (simp add: add_mset_commute)
  have l: "list_all (frameBelow 1) [shoulderOnly (1 / 2), shoulderOnly (1 / 4)]"
    by (simp add: shoulderOnly_below)
  have n: "real (length [shoulderOnly (1 / 2), shoulderOnly (1 / 4)]) * 1 \<le> 2 ^ 1022"
  proof -
    have "(2::real) ^ 1 \<le> 2 ^ 1022" by (rule power_increasing) simp_all
    then show ?thesis by simp
  qed
  show ?thesis
    using average_order_independent
      [of "[shoulderOnly (1 / 2), shoulderOnly (1 / 4)]"
          "[shoulderOnly (1 / 4), shoulderOnly (1 / 2)]" 1 "shoulderOnly (1 / 2)"]
      d b p l n
    by simp
qed

section \<open>Properties of the percentile engine\<close>

lemma erf_poly_lower:
  fixes t :: real
  assumes "0 \<le> t" "t \<le> 1"
  shows "0 \<le> ((((1.061405429 * t + (- 1.453152027)) * t) + 1.421413741) * t + (- 0.284496736)) * t + 0.254829592"
proof -
  have sq1: "0 \<le> (t - 0.6846)\<^sup>2" by simp
  have q: "0.9 \<le> (1.061405429 * t + (- 1.453152027)) * t + 1.421413741"
    using sq1 assms by (simp add: power2_eq_square algebra_simps)
  have "0.9 * (t * t) \<le> ((1.061405429 * t + (- 1.453152027)) * t + 1.421413741) * (t * t)"
    using q by (intro mult_right_mono) auto
  moreover have sq2: "0 \<le> (t - 0.158)\<^sup>2" by simp
  ultimately show ?thesis
    using sq2 assms by (simp add: power2_eq_square algebra_simps)
qed

lemma erf_poly_upper:
  fixes t :: real
  assumes "0 \<le> t" "t \<le> 1"
  shows "((((1.061405429 * t + (- 1.453152027)) * t) + 1.421413741) * t + (- 0.284496736)) * t + 0.254829592 \<le> 2"
proof -
  have "(1.061405429 * t + (- 1.453152027)) * t \<le> 0"
    using assms by (intro mult_nonpos_nonneg) auto
  then have q: "(1.061405429 * t + (- 1.453152027)) * t + 1.421413741 \<le> 1.43" by simp
  have "((1.061405429 * t + (- 1.453152027)) * t + 1.421413741) * t \<le> 1.43 * t"
    using q assms by (intro mult_right_mono) auto
  then have "((1.061405429 * t + (- 1.453152027)) * t + 1.421413741) * t + (- 0.284496736) \<le> 1.43"
    using assms by simp
  then have "(((1.061405429 * t + (- 1.453152027)) * t + 1.421413741) * t + (- 0.284496736)) * t \<le> 1.43 * t"
    using assms by (intro mult_right_mono) auto
  then show ?thesis using assms by simp
qed

lemma erf_bounds: "- 1 \<le> erf x \<and> erf x \<le> 1"
proof -
  define t where "t = 1 / (1 + 0.3275911 * \<bar>x\<bar>)"
  define Q where "Q = ((((1.061405429 * t + (- 1.453152027)) * t) + 1.421413741) * t + (- 0.284496736)) * t + 0.254829592"
  define e where "e = exp (- \<bar>x\<bar> * \<bar>x\<bar>)"
  have t0: "0 \<le> t" and t1: "t \<le> 1"
    by (simp_all add: t_def divide_le_eq)
  have Q0: "0 \<le> Q" and Q2: "Q \<le> 2"
    unfolding Q_def using erf_poly_lower [OF t0 t1] erf_poly_upper [OF t0 t1] by simp_all
  have e0: "0 \<le> e" and e1: "e \<le> 1"
    by (simp_all add: e_def)
  have "Q * t \<le> 2 * 1"
    using Q0 Q2 t0 t1 by (intro mult_mono) auto
  then have "Q * t * e \<le> 2 * 1"
    using Q0 t0 e0 e1 by (intro mult_mono) auto
  then have up: "Q * t * e \<le> 2" by simp
  have lo: "0 \<le> Q * t * e"
    using Q0 t0 e0 by simp
  have y: "erf x = (if x \<ge> 0 then 1 else - 1) * (1 - Q * t * e)"
    by (simp add: erf_def Let_def Q_def t_def e_def)
  show ?thesis
    using up lo by (simp add: y)
qed

lemma normalCDF_bounds: "0 \<le> normalCDF z \<and> normalCDF z \<le> 1"
  using erf_bounds [of "z / sqrt 2"] by (simp add: normalCDF_def)

lemma Math_round_percent:
  assumes "0 \<le> c" "c \<le> 1"
  shows "\<exists>k::int. Math_round (c * 100) = of_int k \<and> 0 \<le> k \<and> k \<le> 100"
proof -
  have "0 \<le> \<lfloor>c * 100 + 1 / 2\<rfloor>"
    using assms by simp
  moreover have "c * 100 + 1 / 2 < 101"
    using assms by simp
  then have "\<lfloor>c * 100 + 1 / 2\<rfloor> \<le> 100"
    by (simp add: floor_le_iff)
  ultimately show ?thesis
    by (auto simp: Math_round_def)
qed

text \<open>
  Claim C1. \<^verbatim>\<open>computePercentile(v, mean, stddev)\<close> is 50 whenever \<open>stddev \<le> 0\<close>; for
  \<open>stddev > 0\<close> it is \<open>round (normalCDF ((v - mean) / stddev) * 100)\<close>, an integer between 0
  and 100.
\<close>

theorem computePercentile_spec:
  "(stddev \<le> 0 \<longrightarrow> computePercentile v mean stddev = 50)
   \<and> (0 < stddev \<longrightarrow>
        computePercentile v mean stddev = Math_round (normalCDF ((v - mean) / stddev) * 100)
        \<and> (\<exists>k::int. computePercentile v mean stddev = of_int k \<and> 0 \<le> k \<and> k \<le> 100))"
proof -
  obtain k :: int where
    "Math_round (normalCDF ((v - mean) / stddev) * 100) = of_int k" "0 \<le> k" "k \<le> 100"
    using Math_round_percent normalCDF_bounds by blast
  then show ?thesis
    by (auto simp: computePercentile_def Let_def)
qed

lemma computePercentile_at_mean: "computePercentile 100 100 10 = 50"
  by (simp add: computePercentile_def normalCDF_def erf_def Let_def Math_round_def)

theorem computePercentile_spec_witness:
  "(0::real) \<le> 0 \<and> computePercentile 100 100 0 = 50
   \<and> (0::real) < 10 \<and> computePercentile 100 100 10 = 50
   \<and> (\<exists>k::int. computePercentile 110 100 10 = of_int k \<and> 0 \<le> k \<and> k \<le> 100)"
proof -
  have z: "(0::real) \<le> 0" and p: "(0::real) < 10" by simp_all
  from z computePercentile_spec [of 0 100 100]
  have a: "computePercentile 100 100 0 = 50" by blast
  from p computePercentile_spec [of 10 110 100]
  have b: "\<exists>k::int. computePercentile 110 100 10 = of_int k \<and> 0 \<le> k \<and> k \<le> 100" by blast
  from z p a b computePercentile_at_mean show ?thesis by blast
qed

section \<open>Properties of the density curve\<close>

lemma curveLoop_eq:
  "curveLoop mean stddev numPoints i points =
     points @ map (curveSample mean stddev numPoints) [i..numPoints - 1]"
proof (induction mean stddev numPoints i points rule: curveLoop.induct)
  case (1 mean stddev numPoints i points)
  show ?case
  proof (cases "i < numPoints")
    case True
    then have u: "[i..numPoints - 1] = i # [i + 1..numPoints - 1]"
      by (simp add: upto_rec1)
    have "curveLoop mean stddev numPoints i points =
        curveLoop mean stddev numPoints (i + 1) (points @ [curveSample mean stddev numPoints i])"
      using True by (subst curveLoop.simps) simp
    also have "\<dots> = (points @ [curveSample mean stddev numPoints i]) @
        map (curveSample mean stddev numPoints) [i + 1..numPoints - 1]"
      using True by (rule "1.IH")
    finally show ?thesis
      by (simp add: u)
  next
    case False
    then have "curveLoop mean stddev numPoints i points = points"
      by (subst curveLoop.simps) simp
    with False show ?thesis
      by simp
  qed
qed

lemma normalCurvePoints_eq:
  "normalCurvePoints mean stddev numPoints =
     map (curveSample mean stddev numPoints) [0..numPoints - 1]"
  by (simp add: normalCurvePoints_def curveLoop_eq)

lemma fl_numeral [simp]:
  "(numeral k :: int) < 2 ^ 53 \<Longrightarrow> fl (numeral k) = Fin (numeral k)"
  "(numeral k :: int) < 2 ^ 53 \<Longrightarrow> fl (- numeral k) = Fin (- numeral k)"
  using fl_int [of "numeral k"] fl_int [of "- numeral k"] by simp_all

lemma exp_25_4: "exp (25 / 4 :: real) \<le> 720"
proof -
  have "exp (1 / 8 :: real) \<le> 1 + 1 / 8 + (1 / 8)\<^sup>2"
    by (rule exp_bound) simp_all
  then have e8: "exp (1 / 8 :: real) \<le> 73 / 64"
    by (simp add: power2_eq_square)
  have "exp (25 / 4 :: real) = exp (of_nat 50 * (1 / 8))"
    by simp
  also have "\<dots> = exp (1 / 8) ^ 50"
    by (rule exp_of_nat_mult)
  also have "\<dots> \<le> (73 / 64) ^ 50"
    using e8 by (intro power_mono) simp_all
  also have "\<dots> \<le> (720 :: real)"
    by (simp add: power_divide)
  finally show ?thesis .
qed

lemma exp_lower:
  fixes e :: real
  assumes "- (25 / 4) \<le> e"
  shows "1 / 720 \<le> exp e"
proof -
  have "exp (- (25 / 4)) \<le> exp e"
    using assms by (simp only: exp_le_cancel_iff)
  moreover have "1 / 720 \<le> exp (- (25 / 4 :: real))"
    using exp_25_4 by (simp add: exp_minus field_simps)
  ultimately show ?thesis by linarith
qed

text \<open>The square root of \<open>2 * Math.PI\<close>, as a double.\<close>

lemma sqrt_two_pi:
  "\<exists>r. fsqrt (fmul (Fin 2) Math_PI) = Fin r \<and> 2 \<le> r \<and> r \<le> 2507 / 1000"
proof -
  define P2 :: real where "P2 = 884279719003555 / 2 ^ 47"
  define tt :: real where "tt = 1 / 2 ^ 1000"
  define H :: real where "H = 2 ^ 1023"
  have p52: "(2::real) ^ 52 = 4503599627370496" by simp
  note eb = rnd_err_bound [folded tt_def, unfolded p52]
  note fb = fl_finite_bound [folded H_def]
  have tt: "tt \<le> 1" by (simp add: tt_def)
  have H: "16 \<le> H"
  proof -
    have "(2::real) ^ 4 \<le> 2 ^ 1023" by (rule power_increasing) simp_all
    then show ?thesis by (simp add: H_def)
  qed
  have e: "2 * (884279719003555 / 2 ^ 48) = P2" by (simp add: P2_def)
  have r: "rnd P2 = P2"
    unfolding P2_def
    using rnd_exact [of 884279719003555 "- 47"] by (simp add: power_int_minus_divide)
  have b: "(5 / 2)\<^sup>2 \<le> P2" "P2 \<le> (25067 / 10000)\<^sup>2" "0 \<le> P2" "\<bar>P2\<bar> \<le> 7"
    by (simp_all add: P2_def power2_eq_square)
  have "fl P2 = Fin (rnd P2)"
    by (rule fb [OF b(4)]) (use H in linarith)
  then have f: "fl P2 = Fin P2" by (simp only: r)
  define q where "q = sqrt P2"
  have q: "5 / 2 \<le> q" "q \<le> 25067 / 10000"
  proof -
    show "5 / 2 \<le> q" unfolding q_def by (rule real_le_rsqrt [OF b(1)])
    show "q \<le> 25067 / 10000" unfolding q_def by (rule real_le_lsqrt [OF _ b(2)]) simp
  qed
  have m: "fmul (Fin 2) Math_PI = Fin P2"
    by (simp only: Math_PI_def fmul.simps e f)
  have s: "fsqrt (Fin P2) = fl q"
    using b(3) by (simp add: q_def)
  have qb: "\<bar>q\<bar> \<le> 3" using q by linarith
  have fq: "fl q = Fin (rnd q)"
    by (rule fb [OF qb]) (use H in linarith)
  have eq: "\<bar>rnd q - q\<bar> \<le> 3 / 4503599627370496"
    by (rule eb [OF qb]) (use tt in linarith)
  have "2 \<le> rnd q" "rnd q \<le> 2507 / 1000"
    using eq q by linarith+
  then show ?thesis
    by (simp only: m s fq) simp
qed

text \<open>The coefficient \<open>1 / (stddev * sqrt (2 * Math.PI))\<close>.\<close>

lemma coefficient:
  assumes lo: "1 / 2 ^ 490 \<le> \<sigma>" and hi: "\<sigma> \<le> 2 ^ 490"
  shows "\<exists>c. fdiv (Fin 1) (fmul (Fin \<sigma>) (fsqrt (fmul (Fin 2) Math_PI))) = Fin c
           \<and> 100 / (251 * \<sigma>) \<le> c \<and> c \<le> 1 / \<sigma>"
proof -
  define tt :: real where "tt = 1 / 2 ^ 1000"
  define H :: real where "H = 2 ^ 1023"
  define L :: real where "L = 1 / 2 ^ 490"
  define U :: real where "U = 2 ^ 490"
  have p52: "(2::real) ^ 52 = 4503599627370496" by simp
  note eb = rnd_err_bound [folded tt_def, unfolded p52]
  note fb = fl_finite_bound [folded H_def]
  have L0: "0 < L" by (simp add: L_def)
  have ttL: "tt \<le> L"
    unfolding tt_def L_def by (intro divide_left_mono power_increasing) simp_all
  have UH: "4 * U \<le> H"
  proof -
    have "(2::real) ^ 492 \<le> 2 ^ 1023" by (rule power_increasing) simp_all
    moreover have "(2::real) ^ 492 = 4 * 2 ^ 490" by simp
    ultimately show ?thesis by (simp only: U_def H_def)
  qed
  have LU: "1 / L = U" "1 / U = L" by (simp_all add: L_def U_def)
  have s: "L \<le> \<sigma>" "\<sigma> \<le> U" using lo hi by (simp_all only: L_def U_def)
  have s0: "0 < \<sigma>" using s(1) L0 by linarith
  define \<rho> where "\<rho> = 1 / \<sigma>"
  have \<rho>0: "0 < \<rho>" using s0 by (simp add: \<rho>_def)
  have \<rho>: "L \<le> \<rho>" "\<rho> \<le> U"
  proof -
    have "1 / U \<le> 1 / \<sigma>" using s(2) s0 by (intro divide_left_mono) simp_all
    then show "L \<le> \<rho>" by (simp only: LU \<rho>_def)
    have "1 / \<sigma> \<le> 1 / L" using s(1) L0 s0 by (intro divide_left_mono) simp_all
    then show "\<rho> \<le> U" by (simp only: LU \<rho>_def)
  qed
  obtain r where r: "fsqrt (fmul (Fin 2) Math_PI) = Fin r" "2 \<le> r" "r \<le> 2507 / 1000"
    using sqrt_two_pi by blast
  define den0 where "den0 = \<sigma> * r"
  have d0: "\<sigma> * 2 \<le> den0" "den0 \<le> \<sigma> * (2507 / 1000)"
    unfolding den0_def using r(2,3) s0 by (intro mult_left_mono; simp)+
  have db: "\<bar>den0\<bar> \<le> 3 * \<sigma>" using d0 s0 by linarith
  define den where "den = rnd den0"
  have fden: "fl den0 = Fin den"
    unfolding den_def by (rule fb [OF db]) (use s UH L0 in linarith)
  have eden: "\<bar>den - den0\<bar> \<le> 3 * \<sigma> / 4503599627370496"
    unfolding den_def by (rule eb [OF db]) (use s ttL L0 in linarith)
  have den: "19 / 10 * \<sigma> \<le> den" "den \<le> 2508 / 1000 * \<sigma>"
    using eden d0 s0 by linarith+
  have den0: "0 < den" using den(1) s0 by linarith
  define c0 where "c0 = 1 / den"
  have c0: "1000 / 2508 * \<rho> \<le> c0" "c0 \<le> 10 / 19 * \<rho>"
  proof -
    have a: "1 / (2508 / 1000 * \<sigma>) = 1000 / 2508 * \<rho>"
      and b: "1 / (19 / 10 * \<sigma>) = 10 / 19 * \<rho>"
      by (simp_all add: \<rho>_def)
    have "1 / (2508 / 1000 * \<sigma>) \<le> 1 / den"
      using den(2) den0 by (intro divide_left_mono) (simp_all add: s0)
    then show "1000 / 2508 * \<rho> \<le> c0" by (simp only: a c0_def)
    have "1 / den \<le> 1 / (19 / 10 * \<sigma>)"
      using den(1) den0 s0 by (intro divide_left_mono) simp_all
    then show "c0 \<le> 10 / 19 * \<rho>" by (simp only: b c0_def)
  qed
  have cb: "\<bar>c0\<bar> \<le> \<rho>" using c0 \<rho>0 by linarith
  define c where "c = rnd c0"
  have fc: "fl c0 = Fin c"
    unfolding c_def by (rule fb [OF cb]) (use \<rho> UH L0 in linarith)
  have ec: "\<bar>c - c0\<bar> \<le> \<rho> / 4503599627370496"
    unfolding c_def by (rule eb [OF cb]) (use \<rho> ttL in linarith)
  have "100 / 251 * \<rho> \<le> c" "c \<le> \<rho>"
    using ec c0 \<rho>0 by linarith+
  then have cc: "100 / (251 * \<sigma>) \<le> c" "c \<le> 1 / \<sigma>"
    by (simp_all add: \<rho>_def)
  have "fmul (Fin \<sigma>) (Fin r) = Fin den"
    by (simp only: fmul.simps den0_def [symmetric] fden)
  moreover have "fdiv (Fin 1) (Fin den) = Fin c"
    using den0 fc by (simp add: c0_def)
  ultimately show ?thesis
    using cc by (simp add: r(1))
qed

text \<open>The denominator \<open>2 * stddev ** 2\<close> of the exponent.\<close>

lemma two_var:
  assumes lo: "1 / 2 ^ 490 \<le> \<sigma>" and hi: "\<sigma> \<le> 2 ^ 490"
  shows "\<exists>t. fmul (Fin 2) (fsquare (Fin \<sigma>)) = Fin t \<and> 199 / 100 * \<sigma>\<^sup>2 \<le> t"
proof -
  define tt :: real where "tt = 1 / 2 ^ 1000"
  define H :: real where "H = 2 ^ 1023"
  define L :: real where "L = 1 / 2 ^ 980"
  define U :: real where "U = 2 ^ 980"
  define Q where "Q = \<sigma>\<^sup>2"
  have p52: "(2::real) ^ 52 = 4503599627370496" by simp
  note eb = rnd_err_bound [folded tt_def, unfolded p52]
  note fb = fl_finite_bound [folded H_def]
  have L0: "0 < L" by (simp add: L_def)
  have ttL: "tt \<le> L"
    unfolding tt_def L_def by (intro divide_left_mono power_increasing) simp_all
  have UH: "4 * U \<le> H"
  proof -
    have "(2::real) ^ 982 \<le> 2 ^ 1023" by (rule power_increasing) simp_all
    moreover have "(2::real) ^ 982 = 4 * 2 ^ 980" by simp
    ultimately show ?thesis by (simp only: U_def H_def)
  qed
  have Q: "L \<le> Q" "Q \<le> U"
  proof -
    have "(1 / 2 ^ 490)\<^sup>2 \<le> \<sigma>\<^sup>2" using lo by (intro power_mono) simp_all
    moreover have "((1::real) / 2 ^ 490)\<^sup>2 = 1 / 2 ^ 980"
      by (simp add: power_divide power_mult [symmetric])
    ultimately show "L \<le> Q" by (simp only: L_def Q_def)
    have "0 \<le> \<sigma>"
    proof -
      have "(0::real) \<le> 1 / 2 ^ 490" by simp
      then show ?thesis using lo by linarith
    qed
    then have "\<sigma>\<^sup>2 \<le> (2 ^ 490)\<^sup>2" using hi by (intro power_mono)
    moreover have "((2::real) ^ 490)\<^sup>2 = 2 ^ 980"
      by (simp add: power_mult [symmetric])
    ultimately show "Q \<le> U" by (simp only: U_def Q_def)
  qed
  have Qb: "\<bar>Q\<bar> \<le> Q" using Q L0 by linarith
  define s2 where "s2 = rnd Q"
  have f1: "fl Q = Fin s2"
    unfolding s2_def by (rule fb [OF Qb]) (use Q UH L0 in linarith)
  have e1: "\<bar>s2 - Q\<bar> \<le> Q / 4503599627370496"
    unfolding s2_def by (rule eb [OF Qb]) (use Q ttL in linarith)
  have r: "rnd (2 * s2) = 2 * s2"
    by (rule rnd_double) (simp add: s2_def)
  have b2: "\<bar>2 * s2\<bar> \<le> 3 * Q" using e1 Q L0 by linarith
  have "fl (2 * s2) = Fin (rnd (2 * s2))"
    by (rule fb [OF b2]) (use Q UH L0 in linarith)
  then have f2: "fl (2 * s2) = Fin (2 * s2)" by (simp only: r)
  have "199 / 100 * Q \<le> 2 * s2" using e1 Q L0 by linarith
  moreover have "fmul (Fin 2) (fsquare (Fin \<sigma>)) = Fin (2 * s2)"
    by (simp only: fsquare.simps Q_def [symmetric] f1 fmul.simps f2)
  ultimately show ?thesis by (simp add: Q_def)
qed

text \<open>
  The offset \<open>x - mean\<close> of sample \<open>i\<close>: at most \<open>3.51 * stddev\<close> in magnitude when the mean is
  not too large against the standard deviation.
\<close>

lemma sample_offset:
  assumes lo: "1 / 2 ^ 490 \<le> \<sigma>" and hi: "\<sigma> \<le> 2 ^ 490"
    and mu: "\<bar>\<mu>\<bar> \<le> 2 ^ 40 * \<sigma>"
    and n: "2 \<le> n" "n \<le> 2 ^ 32" and i: "0 \<le> i" "i \<le> n - 1"
  shows "\<exists>dx. fsub (fadd (fsub (Fin \<mu>) (fmul (Fin (7 / 2)) (Fin \<sigma>)))
                  (fmul (Fin (of_int i))
                     (fdiv (fsub (fadd (Fin \<mu>) (fmul (Fin (7 / 2)) (Fin \<sigma>)))
                                 (fsub (Fin \<mu>) (fmul (Fin (7 / 2)) (Fin \<sigma>))))
                           (fsub (Fin (of_int n)) (Fin 1)))))
             (Fin \<mu>) = Fin dx
          \<and> \<bar>dx\<bar> \<le> 351 / 100 * \<sigma>"
proof -
  define tt :: real where "tt = 1 / 2 ^ 1000"
  define H :: real where "H = 2 ^ 1023"
  define L :: real where "L = 1 / 2 ^ 490"
  define U :: real where "U = 2 ^ 490"
  have p52: "(2::real) ^ 52 = 4503599627370496" by simp
  have p40: "(2::real) ^ 40 = 1099511627776" by simp
  note eb = rnd_err_bound [folded tt_def, unfolded p52]
  note fb = fl_finite_bound [folded H_def]
  have L0: "0 < L" by (simp add: L_def)
  have ttL: "4294967296 * tt \<le> L"
  proof -
    have "(1::real) / 2 ^ 1000 \<le> 1 / 2 ^ 522"
      by (intro divide_left_mono power_increasing) simp_all
    moreover have "(1::real) / 2 ^ 522 = (1 / 2 ^ 490) / 4294967296" by simp
    ultimately show ?thesis by (simp only: tt_def L_def) simp
  qed
  have tt0: "0 < tt" by (simp add: tt_def)
  have UH: "2199023255552 * U \<le> H"
  proof -
    have "(2::real) ^ 531 \<le> 2 ^ 1023" by (rule power_increasing) simp_all
    moreover have "(2::real) ^ 531 = 2199023255552 * 2 ^ 490" by simp
    ultimately show ?thesis by (simp only: U_def H_def)
  qed
  have s: "L \<le> \<sigma>" "\<sigma> \<le> U" using lo hi by (simp_all only: L_def U_def)
  have s0: "0 < \<sigma>" using s(1) L0 by linarith
  have m0: "\<bar>\<mu>\<bar> \<le> 1099511627776 * \<sigma>" using mu by (simp only: p40)
  \<comment> \<open>\<open>3.5 * stddev\<close>\<close>
  define x1 where "x1 = 7 / 2 * \<sigma>"
  define t3 where "t3 = rnd x1"
  have b1: "\<bar>x1\<bar> \<le> 4 * \<sigma>" unfolding x1_def using s0 by linarith
  have f1: "fl x1 = Fin t3"
    unfolding t3_def by (rule fb [OF b1]) (use s UH L0 in linarith)
  have e1: "\<bar>t3 - x1\<bar> \<le> 4 * \<sigma> / 4503599627370496"
    unfolding t3_def by (rule eb [OF b1]) (use s ttL tt0 L0 in linarith)
  \<comment> \<open>\<open>minX\<close> and \<open>maxX\<close>\<close>
  define x2 where "x2 = \<mu> + - t3"
  define mn where "mn = rnd x2"
  have b2: "\<bar>x2\<bar> \<le> 1099511627780 * \<sigma>"
    unfolding x2_def using m0 e1 s0 unfolding x1_def by linarith
  have f2: "fl x2 = Fin mn"
    unfolding mn_def by (rule fb [OF b2]) (use s UH L0 in linarith)
  have e2: "\<bar>mn - x2\<bar> \<le> 1099511627780 * \<sigma> / 4503599627370496"
    unfolding mn_def by (rule eb [OF b2]) (use s ttL tt0 L0 in linarith)
  define x3 where "x3 = \<mu> + t3"
  define mx where "mx = rnd x3"
  have b3: "\<bar>x3\<bar> \<le> 1099511627780 * \<sigma>"
    unfolding x3_def using m0 e1 s0 unfolding x1_def by linarith
  have f3: "fl x3 = Fin mx"
    unfolding mx_def by (rule fb [OF b3]) (use s UH L0 in linarith)
  have e3: "\<bar>mx - x3\<bar> \<le> 1099511627780 * \<sigma> / 4503599627370496"
    unfolding mx_def by (rule eb [OF b3]) (use s ttL tt0 L0 in linarith)
  \<comment> \<open>\<open>maxX - minX\<close>\<close>
  define D0 where "D0 = mx + - mn"
  define d where "d = rnd D0"
  have a3: "\<bar>D0 - 7 * \<sigma>\<bar> \<le> 2199023255568 * \<sigma> / 4503599627370496"
    unfolding D0_def using e1 e2 e3 unfolding x1_def x2_def x3_def by linarith
  have b4: "\<bar>D0\<bar> \<le> 8 * \<sigma>" using a3 s0 by linarith
  have f4: "fl D0 = Fin d"
    unfolding d_def by (rule fb [OF b4]) (use s UH L0 in linarith)
  have e4: "\<bar>d - D0\<bar> \<le> 8 * \<sigma> / 4503599627370496"
    unfolding d_def by (rule eb [OF b4]) (use s ttL tt0 L0 in linarith)
  have a4: "\<bar>d - 7 * \<sigma>\<bar> \<le> 2199023255576 * \<sigma> / 4503599627370496"
    using a3 e4 by linarith
  \<comment> \<open>\<open>numPoints - 1\<close> and \<open>step\<close>\<close>
  define m where "m = real_of_int (n - 1)"
  have m: "1 \<le> m" "m \<le> 4294967296"
    using n by (simp_all add: m_def)
  have mpos: "0 < m" using m(1) by linarith
  have "\<bar>n - 1\<bar> < 2 ^ 53" using n by simp
  then have f5: "fl m = Fin m"
    unfolding m_def by (rule fl_int)
  have nm: "real_of_int n + - 1 = m" by (simp add: m_def)
  define g where "g = \<sigma> / m"
  define dm where "dm = d / m"
  define st where "st = rnd dm"
  have g0: "0 < g" using s0 mpos by (simp add: g_def)
  have gm: "g * m = \<sigma>" using mpos by (simp add: g_def)
  have g1: "\<sigma> / 4294967296 \<le> g"
    unfolding g_def using m s0 mpos by (intro divide_left_mono) simp_all
  have g2: "g \<le> \<sigma>"
  proof -
    have "g * 1 \<le> g * m" using m(1) g0 by (intro mult_left_mono) simp_all
    then show ?thesis by (simp add: gm)
  qed
  have a5: "\<bar>dm - 7 * g\<bar> \<le> 2199023255576 * g / 4503599627370496"
  proof -
    have "dm - 7 * g = (d - 7 * \<sigma>) / m"
      by (simp add: dm_def g_def diff_divide_distrib)
    then have "\<bar>dm - 7 * g\<bar> = \<bar>d - 7 * \<sigma>\<bar> / m"
      using mpos by simp
    also have "\<dots> \<le> (2199023255576 * \<sigma> / 4503599627370496) / m"
      using a4 mpos by (intro divide_right_mono) simp_all
    also have "\<dots> = 2199023255576 * g / 4503599627370496"
      by (simp add: g_def)
    finally show ?thesis .
  qed
  have b6: "\<bar>dm\<bar> \<le> 8 * g" using a5 g0 by linarith
  have f6: "fl dm = Fin st"
    unfolding st_def by (rule fb [OF b6]) (use g2 s UH L0 in linarith)
  have e6: "\<bar>st - dm\<bar> \<le> 8 * g / 4503599627370496"
    unfolding st_def by (rule eb [OF b6]) (use g1 s ttL tt0 L0 in linarith)
  have a6: "\<bar>st - 7 * g\<bar> \<le> 2199023255584 * g / 4503599627370496"
    using a5 e6 by linarith
  \<comment> \<open>\<open>i * step\<close>\<close>
  define ir where "ir = real_of_int i"
  define z where "z = ir * g"
  define q0 where "q0 = ir * st"
  define qi where "qi = rnd q0"
  have ir: "0 \<le> ir" "ir \<le> m"
    using i by (simp_all add: ir_def m_def)
  have z: "0 \<le> z" "z \<le> \<sigma>"
  proof -
    show "0 \<le> z" using ir(1) g0 by (simp add: z_def)
    have "ir * g \<le> m * g" using ir(2) g0 by (intro mult_right_mono) simp_all
    then show "z \<le> \<sigma>" using gm by (simp add: z_def mult.commute)
  qed
  have a7: "\<bar>q0 - 7 * z\<bar> \<le> 2199023255584 * \<sigma> / 4503599627370496"
  proof -
    have "q0 - 7 * z = ir * (st - 7 * g)"
      by (simp add: q0_def z_def algebra_simps)
    then have "\<bar>q0 - 7 * z\<bar> = ir * \<bar>st - 7 * g\<bar>"
      using ir(1) by (simp add: abs_mult)
    also have "\<dots> \<le> ir * (2199023255584 * g / 4503599627370496)"
      using a6 ir(1) by (intro mult_left_mono) simp_all
    also have "\<dots> = 2199023255584 * z / 4503599627370496"
      by (simp add: z_def)
    also have "\<dots> \<le> 2199023255584 * \<sigma> / 4503599627370496"
      using z(2) by simp
    finally show ?thesis .
  qed
  have b7: "\<bar>q0\<bar> \<le> 8 * \<sigma>" using a7 z s0 by linarith
  have f7: "fl q0 = Fin qi"
    unfolding qi_def by (rule fb [OF b7]) (use s UH L0 in linarith)
  have e7: "\<bar>qi - q0\<bar> \<le> 8 * \<sigma> / 4503599627370496"
    unfolding qi_def by (rule eb [OF b7]) (use s ttL tt0 L0 in linarith)
  have a8: "\<bar>qi - 7 * z\<bar> \<le> 2199023255592 * \<sigma> / 4503599627370496"
    using a7 e7 by linarith
  \<comment> \<open>\<open>x\<close>\<close>
  define x0 where "x0 = mn + qi"
  define x where "x = rnd x0"
  have a9: "\<bar>x0 - (\<mu> - 7 / 2 * \<sigma> + 7 * z)\<bar> \<le> 3298534883376 * \<sigma> / 4503599627370496"
    unfolding x0_def using e2 e1 a8 unfolding x2_def x1_def by linarith
  have b8: "\<bar>x0\<bar> \<le> 1099511627780 * \<sigma>"
    using a9 m0 z s0 by linarith
  have f8: "fl x0 = Fin x"
    unfolding x_def by (rule fb [OF b8]) (use s UH L0 in linarith)
  have e8: "\<bar>x - x0\<bar> \<le> 1099511627780 * \<sigma> / 4503599627370496"
    unfolding x_def by (rule eb [OF b8]) (use s ttL tt0 L0 in linarith)
  \<comment> \<open>\<open>x - mean\<close>\<close>
  define dx0 where "dx0 = x + - \<mu>"
  define dx where "dx = rnd dx0"
  have a10: "\<bar>dx0 - (7 * z - 7 / 2 * \<sigma>)\<bar> \<le> 4398046511156 * \<sigma> / 4503599627370496"
    unfolding dx0_def using a9 e8 by linarith
  have b9: "\<bar>dx0\<bar> \<le> 4 * \<sigma>" using a10 z s0 by linarith
  have f9: "fl dx0 = Fin dx"
    unfolding dx_def by (rule fb [OF b9]) (use s UH L0 in linarith)
  have e9: "\<bar>dx - dx0\<bar> \<le> 4 * \<sigma> / 4503599627370496"
    unfolding dx_def by (rule eb [OF b9]) (use s ttL tt0 L0 in linarith)
  have res: "\<bar>dx\<bar> \<le> 351 / 100 * \<sigma>"
    using a10 e9 z s0 by linarith
  have c1: "fmul (Fin (7 / 2)) (Fin \<sigma>) = Fin t3"
    by (simp only: fmul.simps x1_def [symmetric] f1)
  have c2: "fsub (Fin \<mu>) (Fin t3) = Fin mn"
    by (simp only: fsub_def fneg.simps fadd.simps x2_def [symmetric] f2)
  have c3: "fadd (Fin \<mu>) (Fin t3) = Fin mx"
    by (simp only: fadd.simps x3_def [symmetric] f3)
  have c4: "fsub (Fin mx) (Fin mn) = Fin d"
    by (simp only: fsub_def fneg.simps fadd.simps D0_def [symmetric] f4)
  have c5: "fsub (Fin (of_int n)) (Fin 1) = Fin m"
    by (simp only: fsub_def fneg.simps fadd.simps nm f5)
  have c6: "fdiv (Fin d) (Fin m) = Fin st"
    using mpos f6 by (simp add: dm_def)
  have c7: "fmul (Fin (of_int i)) (Fin st) = Fin qi"
    by (simp only: fmul.simps ir_def [symmetric] q0_def [symmetric] f7)
  have c8: "fadd (Fin mn) (Fin qi) = Fin x"
    by (simp only: fadd.simps x0_def [symmetric] f8)
  have c9: "fsub (Fin x) (Fin \<mu>) = Fin dx"
    by (simp only: fsub_def fneg.simps fadd.simps dx0_def [symmetric] f9)
  show ?thesis
    using res by (simp only: c1 c2 c3 c4 c5 c6 c7 c8 c9) simp
qed

lemma toFixedParse6_pos:
  assumes v: "1 / 2000000 \<le> v"
  shows "\<exists>z. toFixedParse 6 (Fin v) = Fin z \<and> 0 < z"
proof (cases "10 ^ 21 \<le> \<bar>v\<bar>")
  case True
  then show ?thesis using v by simp
next
  case False
  define k where "k = \<lfloor>\<bar>v\<bar> * 10 ^ 6 + 1 / 2\<rfloor>"
  define u where "u = real_of_int k / 10 ^ 6"
  have v0: "0 < v" using v by linarith
  have vv: "\<bar>v\<bar> = v" "sgn v = 1" using v0 by simp_all
  have "of_int 1 \<le> \<bar>v\<bar> * 10 ^ 6 + 1 / 2" using v vv by simp
  then have k1: "1 \<le> k" unfolding k_def by (simp only: le_floor_iff)
  have "real_of_int k \<le> \<bar>v\<bar> * 10 ^ 6 + 1 / 2" unfolding k_def by linarith
  then have k2: "real_of_int k \<le> 10 ^ 21 * 10 ^ 6 + 1 / 2" using False by simp
  have u1: "1 / 10 ^ 6 \<le> u"
    unfolding u_def using k1 by (intro divide_right_mono) simp_all
  have u2: "u \<le> 10 ^ 22"
    unfolding u_def using k2 by (simp add: field_simps)
  have "(1::real) / 2 ^ 1074 \<le> 1 / 2 ^ 20"
    by (intro divide_left_mono power_increasing) simp_all
  moreover have "(1::real) / 2 ^ 20 \<le> 1 / 10 ^ 6" by simp
  ultimately have "1 / 2 ^ 1074 \<le> u" using u1 by linarith
  then have p: "0 < rnd u" by (rule rnd_pos)
  have "(10::real) ^ 22 \<le> 16 ^ 22" by (intro power_mono) simp_all
  also have "\<dots> = 2 ^ 88" by simp
  also have "\<dots> \<le> (2::real) ^ 1023" by (rule power_increasing) simp_all
  finally have h: "(10::real) ^ 22 \<le> 2 ^ 1023" .
  have "\<bar>u\<bar> \<le> 10 ^ 22" using u1 u2 by simp
  then have f: "fl u = Fin (rnd u)" using h by (rule fl_finite_bound)
  have "toFixedParse 6 (Fin v) = fl u"
    using False by (simp add: vv u_def k_def)
  then show ?thesis using f p by simp
qed

lemma toFixedParse6_zero:
  assumes "0 \<le> v" "v < 1 / 2000000"
  shows "toFixedParse 6 (Fin v) = Fin 0"
proof -
  have "of_int 0 \<le> \<bar>v\<bar> * 1000000 + 1 / 2" "\<bar>v\<bar> * 1000000 + 1 / 2 < of_int 0 + 1"
    using assms by simp_all
  then have k: "\<lfloor>\<bar>v\<bar> * 1000000 + 1 / 2\<rfloor> = 0"
    by (simp only: floor_eq_iff)
  have "\<not> 10 ^ 21 \<le> \<bar>v\<bar>" using assms by simp
  then show ?thesis by (simp add: k)
qed

text \<open>The density at an offset of at most \<open>3.51 * stddev\<close>, for \<open>stddev \<le> 1000\<close>.\<close>

lemma density_pos:
  assumes lo: "1 / 2 ^ 490 \<le> \<sigma>" and hi: "\<sigma> \<le> 1000"
    and c: "100 / (251 * \<sigma>) \<le> c" "c \<le> 1 / \<sigma>"
    and t: "199 / 100 * \<sigma>\<^sup>2 \<le> t"
    and dx: "\<bar>dx\<bar> \<le> 351 / 100 * \<sigma>"
  shows "\<exists>y. fmul (Fin c) (fexp (fdiv (fneg (fsquare (Fin dx))) (Fin t))) = Fin y
           \<and> 1 / 2000000 \<le> y"
proof -
  define tt :: real where "tt = 1 / 2 ^ 1000"
  define H :: real where "H = 2 ^ 1023"
  define L :: real where "L = 1 / 2 ^ 980"
  define Q where "Q = \<sigma>\<^sup>2"
  define \<rho> where "\<rho> = 1 / \<sigma>"
  have p52: "(2::real) ^ 52 = 4503599627370496" by simp
  note eb = rnd_err_bound [folded tt_def, unfolded p52]
  note fb = fl_finite_bound [folded H_def]
  have L0: "0 < L" by (simp add: L_def)
  have tt0: "0 < tt" by (simp add: tt_def)
  have tt1: "1000 * tt \<le> 1" by (simp add: tt_def)
  have ttL: "tt \<le> L"
    unfolding tt_def L_def by (intro divide_left_mono power_increasing) simp_all
  have H: "2 ^ 500 \<le> H"
    unfolding H_def by (rule power_increasing) simp_all
  have s0: "0 < \<sigma>"
  proof -
    have "(0::real) < 1 / 2 ^ 490" by simp
    then show ?thesis using lo by linarith
  qed
  have Q: "L \<le> Q" "Q \<le> 1000000"
  proof -
    have "(1 / 2 ^ 490)\<^sup>2 \<le> \<sigma>\<^sup>2" using lo by (intro power_mono) simp_all
    moreover have "((1::real) / 2 ^ 490)\<^sup>2 = 1 / 2 ^ 980"
      by (simp add: power_divide power_mult [symmetric])
    ultimately show "L \<le> Q" by (simp only: L_def Q_def)
    have "\<sigma>\<^sup>2 \<le> 1000\<^sup>2" using hi s0 by (intro power_mono) simp_all
    then show "Q \<le> 1000000" by (simp add: Q_def)
  qed
  have Q0: "0 < Q" using Q(1) L0 by linarith
  have Hb: "1000000 * 13 \<le> H" "2 * 2 ^ 490 \<le> H" "7 \<le> H"
  proof -
    have a: "(13000000::real) \<le> 2 ^ 500"
    proof -
      have "(13000000::real) \<le> 2 ^ 24" by simp
      also have "\<dots> \<le> 2 ^ 500" by (rule power_increasing) simp_all
      finally show ?thesis .
    qed
    have b: "(2::real) * 2 ^ 490 \<le> 2 ^ 500"
    proof -
      have "(2::real) * 2 ^ 490 = 2 ^ 491" by simp
      also have "\<dots> \<le> 2 ^ 500" by (rule power_increasing) simp_all
      finally show ?thesis .
    qed
    show "1000000 * 13 \<le> H" using a H by linarith
    show "2 * 2 ^ 490 \<le> H" using b H by linarith
    show "7 \<le> H" using a H by linarith
  qed
  have \<rho>: "1 / 1000 \<le> \<rho>" "\<rho> \<le> 2 ^ 490"
  proof -
    show "1 / 1000 \<le> \<rho>"
      unfolding \<rho>_def using hi s0 by (intro divide_left_mono) simp_all
    have "1 / \<sigma> \<le> 1 / (1 / 2 ^ 490)"
      using lo s0 by (intro divide_left_mono) simp_all
    then show "\<rho> \<le> 2 ^ 490" by (simp add: \<rho>_def)
  qed
  have \<rho>0: "0 < \<rho>" using \<rho>(1) by linarith
  have c': "100 / 251 * \<rho> \<le> c" "c \<le> \<rho>"
    using c by (simp_all add: \<rho>_def)
  have t': "199 / 100 * Q \<le> t" using t by (simp only: Q_def)
  have t0: "0 < t" using t' Q0 by linarith
  \<comment> \<open>the square of the offset\<close>
  define sq0 where "sq0 = dx\<^sup>2"
  define sq where "sq = rnd sq0"
  have sq0: "0 \<le> sq0" "sq0 \<le> 123201 / 10000 * Q"
  proof -
    show "0 \<le> sq0" by (simp add: sq0_def)
    have "\<bar>dx\<bar> \<le> \<bar>351 / 100 * \<sigma>\<bar>" using dx s0 by simp
    then have "dx\<^sup>2 \<le> (351 / 100 * \<sigma>)\<^sup>2" by (simp only: abs_le_square_iff)
    then show "sq0 \<le> 123201 / 10000 * Q"
      by (simp add: sq0_def Q_def power_mult_distrib power2_eq_square)
  qed
  have b1: "\<bar>sq0\<bar> \<le> 13 * Q" using sq0 Q0 by linarith
  have f1: "fl sq0 = Fin sq"
    unfolding sq_def by (rule fb [OF b1]) (use Q Hb in linarith)
  have e1: "\<bar>sq - sq0\<bar> \<le> 13 * Q / 4503599627370496"
    unfolding sq_def by (rule eb [OF b1]) (use Q ttL L0 in linarith)
  have sq: "0 \<le> sq" "sq \<le> 1233 / 100 * Q"
  proof -
    show "0 \<le> sq" unfolding sq_def by (rule rnd_nonneg [OF sq0(1)])
    show "sq \<le> 1233 / 100 * Q" using e1 sq0 Q0 by linarith
  qed
  \<comment> \<open>the exponent\<close>
  define e0 where "e0 = - sq / t"
  define e where "e = rnd e0"
  have r: "sq / t \<le> 1233 / 199"
  proof -
    have u: "0 < 199 / 100 * Q" and u': "0 \<le> 1233 / 100 * Q" using Q0 by simp_all
    have "sq / t \<le> (1233 / 100 * Q) / (199 / 100 * Q)"
      by (rule frac_le [OF u' sq(2) u t'])
    also have "\<dots> = 1233 / 199" using Q0 by simp
    finally show ?thesis .
  qed
  have r0: "0 \<le> sq / t" using sq(1) t0 by simp
  have e0: "- (62 / 10) \<le> e0" "e0 \<le> 0"
    using r r0 by (simp_all add: e0_def)
  have b2: "\<bar>e0\<bar> \<le> 7" using e0 by linarith
  have f2: "fl e0 = Fin e"
    unfolding e_def by (rule fb [OF b2]) (use Hb in linarith)
  have e2: "\<bar>e - e0\<bar> \<le> 7 / 4503599627370496"
    unfolding e_def by (rule eb [OF b2]) (use tt1 tt0 in linarith)
  have e: "- (25 / 4) \<le> e" "e \<le> 0"
  proof -
    show "- (25 / 4) \<le> e" using e2 e0 by linarith
    show "e \<le> 0" unfolding e_def by (rule rnd_nonpos [OF e0(2)])
  qed
  \<comment> \<open>the exponential\<close>
  define ex0 where "ex0 = exp e"
  define ex where "ex = rnd ex0"
  have ex0: "1 / 720 \<le> ex0" "ex0 \<le> 1"
  proof -
    show "1 / 720 \<le> ex0" unfolding ex0_def by (rule exp_lower [OF e(1)])
    show "ex0 \<le> 1" using e(2) by (simp add: ex0_def)
  qed
  have b3: "\<bar>ex0\<bar> \<le> 1" using ex0 by linarith
  have f3: "fl ex0 = Fin ex"
    unfolding ex_def by (rule fb [OF b3]) (use Hb in linarith)
  have e3: "\<bar>ex - ex0\<bar> \<le> 1 / 4503599627370496"
    unfolding ex_def by (rule eb [OF b3]) (use tt1 tt0 in linarith)
  have ex: "1 / 721 \<le> ex" "ex \<le> 2"
    using e3 ex0 by linarith+
  \<comment> \<open>the product\<close>
  define y0 where "y0 = c * ex"
  define y where "y = rnd y0"
  have y0: "100 / 251 * \<rho> * (1 / 721) \<le> y0" "y0 \<le> \<rho> * 2"
  proof -
    have c0: "0 \<le> c" using c'(1) \<rho>0 by linarith
    show "100 / 251 * \<rho> * (1 / 721) \<le> y0"
      unfolding y0_def using c'(1) ex(1) c0 \<rho>0 by (intro mult_mono) simp_all
    show "y0 \<le> \<rho> * 2"
      unfolding y0_def using c'(2) ex(2) c0 ex(1) \<rho>0 by (intro mult_mono) simp_all
  qed
  have b4: "\<bar>y0\<bar> \<le> 2 * \<rho>" using y0 \<rho>0 by linarith
  have f4: "fl y0 = Fin y"
    unfolding y_def by (rule fb [OF b4]) (use \<rho> Hb in linarith)
  have e4: "\<bar>y - y0\<bar> \<le> 2 * \<rho> / 4503599627370496"
    unfolding y_def by (rule eb [OF b4]) (use \<rho> tt1 tt0 in linarith)
  have res: "1 / 2000000 \<le> y"
    using e4 y0(1) \<rho>(1) by linarith
  have c1: "fsquare (Fin dx) = Fin sq"
    by (simp only: fsquare.simps sq0_def [symmetric] f1)
  have c2: "fdiv (fneg (Fin sq)) (Fin t) = Fin e"
    using t0 f2 by (simp add: e0_def)
  have c3: "fexp (Fin e) = Fin ex"
    by (simp only: fexp.simps ex0_def [symmetric] f3)
  have c4: "fmul (Fin c) (Fin ex) = Fin y"
    by (simp only: fmul.simps y0_def [symmetric] f4)
  show ?thesis
    using res by (simp only: c1 c2 c3 c4) simp
qed

lemma curveSample_y_eq:
  "pt_y (curveSample (Fin \<mu>) (Fin \<sigma>) n i) =
     toFixedParse 6
       (fmul (fdiv (Fin 1) (fmul (Fin \<sigma>) (fsqrt (fmul (Fin 2) Math_PI))))
          (fexp (fdiv
             (fneg (fsquare
                (fsub (fadd (fsub (Fin \<mu>) (fmul (Fin (7 / 2)) (Fin \<sigma>)))
                         (fmul (Fin (of_int i))
                            (fdiv (fsub (fadd (Fin \<mu>) (fmul (Fin (7 / 2)) (Fin \<sigma>)))
                                        (fsub (Fin \<mu>) (fmul (Fin (7 / 2)) (Fin \<sigma>))))
                                  (fsub (Fin (of_int n)) (Fin 1)))))
                      (Fin \<mu>))))
             (fmul (Fin 2) (fsquare (Fin \<sigma>))))))"
  by (simp only: curveSample_def Let_def point.select_convs)

lemma curveSample_y_pos:
  assumes lo: "1 / 2 ^ 490 \<le> \<sigma>" and hi: "\<sigma> \<le> 1000"
    and mu: "\<bar>\<mu>\<bar> \<le> 2 ^ 40 * \<sigma>"
    and n: "2 \<le> n" "n \<le> 2 ^ 32" and i: "0 \<le> i" "i \<le> n - 1"
  shows "\<exists>y. pt_y (curveSample (Fin \<mu>) (Fin \<sigma>) n i) = Fin y \<and> 0 < y"
proof -
  have "(1000::real) \<le> 2 ^ 10" by simp
  also have "\<dots> \<le> 2 ^ 490" by (rule power_increasing) simp_all
  finally have hi': "\<sigma> \<le> 2 ^ 490" using hi by linarith
  obtain dx where dx:
    "fsub (fadd (fsub (Fin \<mu>) (fmul (Fin (7 / 2)) (Fin \<sigma>)))
                  (fmul (Fin (of_int i))
                     (fdiv (fsub (fadd (Fin \<mu>) (fmul (Fin (7 / 2)) (Fin \<sigma>)))
                                 (fsub (Fin \<mu>) (fmul (Fin (7 / 2)) (Fin \<sigma>))))
                           (fsub (Fin (of_int n)) (Fin 1)))))
             (Fin \<mu>) = Fin dx"
    "\<bar>dx\<bar> \<le> 351 / 100 * \<sigma>"
    using sample_offset [OF lo hi' mu n i] by blast
  obtain t where t: "fmul (Fin 2) (fsquare (Fin \<sigma>)) = Fin t" "199 / 100 * \<sigma>\<^sup>2 \<le> t"
    using two_var [OF lo hi'] by blast
  obtain c where c: "fdiv (Fin 1) (fmul (Fin \<sigma>) (fsqrt (fmul (Fin 2) Math_PI))) = Fin c"
    "100 / (251 * \<sigma>) \<le> c" "c \<le> 1 / \<sigma>"
    using coefficient [OF lo hi'] by blast
  obtain y where y: "fmul (Fin c) (fexp (fdiv (fneg (fsquare (Fin dx))) (Fin t))) = Fin y"
    "1 / 2000000 \<le> y"
    using density_pos [OF lo hi c(2,3) t(2) dx(2)] by blast
  have "pt_y (curveSample (Fin \<mu>) (Fin \<sigma>) n i) = toFixedParse 6 (Fin y)"
    by (simp only: curveSample_y_eq dx(1) t(1) c(1) y(1))
  then show ?thesis
    using toFixedParse6_pos [OF y(2)] by simp
qed

text \<open>The density for \<open>stddev \<ge> 10^7\<close>: below \<open>5 * 10^-7\<close> whatever the exponent.\<close>

lemma density_zero:
  assumes c: "0 \<le> c" "c \<le> 1 / 10000000" and t: "0 < t"
  shows "toFixedParse 6 (fmul (Fin c) (fexp (fdiv (fneg (fsquare (Fin dx))) (Fin t)))) = Fin 0"
proof -
  define tt :: real where "tt = 1 / 2 ^ 1000"
  define H :: real where "H = 2 ^ 1023"
  have p52: "(2::real) ^ 52 = 4503599627370496" by simp
  note eb = rnd_err_bound [folded tt_def, unfolded p52]
  note fb = fl_finite_bound [folded H_def]
  have tt1: "tt \<le> 1" by (simp add: tt_def)
  have H: "1 \<le> H" unfolding H_def by (rule one_le_power) simp
  have z: "toFixedParse 6 (fmul (Fin c) (Fin 0)) = Fin 0" by simp
  have fin: "toFixedParse 6 (fmul (Fin c) (fexp (Fin e))) = Fin 0" if e: "e \<le> 0" for e
  proof -
    define ex0 where "ex0 = exp e"
    define ex where "ex = rnd ex0"
    have ex0: "0 \<le> ex0" "ex0 \<le> 1" using e by (simp_all add: ex0_def)
    have b1: "\<bar>ex0\<bar> \<le> 1" using ex0 by linarith
    have f1: "fl ex0 = Fin ex"
      unfolding ex_def by (rule fb [OF b1 H])
    have e1: "\<bar>ex - ex0\<bar> \<le> 1 / 4503599627370496"
      unfolding ex_def by (rule eb [OF b1 tt1])
    have ex: "0 \<le> ex" "ex \<le> 2"
    proof -
      show "0 \<le> ex" unfolding ex_def by (rule rnd_nonneg [OF ex0(1)])
      show "ex \<le> 2" using e1 ex0 by linarith
    qed
    define y0 where "y0 = c * ex"
    define y where "y = rnd y0"
    have y0: "0 \<le> y0" "y0 \<le> 1 / 10000000 * 2"
    proof -
      show "0 \<le> y0" using c(1) ex(1) by (simp add: y0_def)
      show "y0 \<le> 1 / 10000000 * 2"
        unfolding y0_def using c ex by (intro mult_mono) simp_all
    qed
    have b2: "\<bar>y0\<bar> \<le> 1" using y0 by linarith
    have f2: "fl y0 = Fin y"
      unfolding y_def by (rule fb [OF b2 H])
    have e2: "\<bar>y - y0\<bar> \<le> 1 / 4503599627370496"
      unfolding y_def by (rule eb [OF b2 tt1])
    have y: "0 \<le> y" "y < 1 / 2000000"
    proof -
      show "0 \<le> y" unfolding y_def by (rule rnd_nonneg [OF y0(1)])
      show "y < 1 / 2000000" using e2 y0 by linarith
    qed
    have "fmul (Fin c) (fexp (Fin e)) = Fin y"
      by (simp only: fexp.simps ex0_def [symmetric] f1 fmul.simps y0_def [symmetric] f2)
    then show ?thesis using toFixedParse6_zero [OF y] by simp
  qed
  have quot: "toFixedParse 6 (fmul (Fin c) (fexp (fl (- s / t)))) = Fin 0" if s: "0 \<le> s" for s
  proof -
    have np: "- s / t \<le> 0" using s t by (simp add: divide_nonpos_pos)
    show ?thesis
    proof (rule fl_cases [of "- s / t"])
      assume "0 < rnd (- s / t)"
      then show ?thesis using rnd_nonpos [OF np] by simp
    next
      assume "fl (- s / t) = NInf"
      then show ?thesis using z by simp
    next
      assume "fl (- s / t) = Fin (rnd (- s / t))"
      then show ?thesis using fin [OF rnd_nonpos [OF np]] by simp
    qed
  qed
  show ?thesis
  proof (rule fl_cases [of "dx\<^sup>2"])
    assume "fl (dx\<^sup>2) = PInf"
    then show ?thesis using t z by simp
  next
    assume "rnd (dx\<^sup>2) < 0"
    then show ?thesis using rnd_nonneg [of "dx\<^sup>2"] by simp
  next
    assume f: "fl (dx\<^sup>2) = Fin (rnd (dx\<^sup>2))"
    have "0 \<le> rnd (dx\<^sup>2)" by (rule rnd_nonneg) simp
    from quot [OF this] show ?thesis using t by (simp add: f)
  qed
qed

lemma curveSample_y_zero:
  assumes lo: "10000000 \<le> \<sigma>" and hi: "\<sigma> \<le> 2 ^ 490"
    and mu: "\<bar>\<mu>\<bar> \<le> 2 ^ 40 * \<sigma>"
    and n: "2 \<le> n" "n \<le> 2 ^ 32" and i: "0 \<le> i" "i \<le> n - 1"
  shows "pt_y (curveSample (Fin \<mu>) (Fin \<sigma>) n i) = Fin 0"
proof -
  have "(1::real) / 2 ^ 490 \<le> 1" by simp
  then have lo': "1 / 2 ^ 490 \<le> \<sigma>" using lo by linarith
  have s0: "0 < \<sigma>" using lo by linarith
  obtain dx where dx:
    "fsub (fadd (fsub (Fin \<mu>) (fmul (Fin (7 / 2)) (Fin \<sigma>)))
                  (fmul (Fin (of_int i))
                     (fdiv (fsub (fadd (Fin \<mu>) (fmul (Fin (7 / 2)) (Fin \<sigma>)))
                                 (fsub (Fin \<mu>) (fmul (Fin (7 / 2)) (Fin \<sigma>))))
                           (fsub (Fin (of_int n)) (Fin 1)))))
             (Fin \<mu>) = Fin dx"
    using sample_offset [OF lo' hi mu n i] by blast
  obtain t where t: "fmul (Fin 2) (fsquare (Fin \<sigma>)) = Fin t" "199 / 100 * \<sigma>\<^sup>2 \<le> t"
    using two_var [OF lo' hi] by blast
  have t0: "0 < t"
  proof -
    have "0 < 199 / 100 * \<sigma>\<^sup>2" using s0 by simp
    then show ?thesis using t(2) by linarith
  qed
  obtain c where c: "fdiv (Fin 1) (fmul (Fin \<sigma>) (fsqrt (fmul (Fin 2) Math_PI))) = Fin c"
    "100 / (251 * \<sigma>) \<le> c" "c \<le> 1 / \<sigma>"
    using coefficient [OF lo' hi] by blast
  have c0: "0 \<le> c"
  proof -
    have "0 \<le> 100 / (251 * \<sigma>)" using s0 by simp
    then show ?thesis using c(2) by linarith
  qed
  have "1 / \<sigma> \<le> 1 / 10000000"
    using lo by (intro divide_left_mono) simp_all
  then have c1: "c \<le> 1 / 10000000" using c(3) by linarith
  show ?thesis
    by (simp only: curveSample_y_eq dx t(1) c(1) density_zero [OF c0 c1 t0])
qed

lemma upto_0_2: "[0..2::int] = [0, 1, 2]"
  by (simp add: upto_rec1)

text \<open>
  Claim C2, amended. For every \<open>stddev\<close> between \<open>2^-490\<close> and \<open>1000\<close>, every mean of
  magnitude at most \<open>2^40 * stddev\<close> and every sample count from 2 to \<open>2^32\<close>, each \<open>y\<close>
  returned by \<^verbatim>\<open>normalCurvePoints\<close> is a finite double and strictly positive: every sample
  lies within \<open>3.51 * stddev\<close> of the mean, where the density is above \<open>5 * 10^-7\<close> and
  rounds to at least one unit of the sixth decimal.
\<close>

theorem normalCurvePoints_y:
  assumes "1 / 2 ^ 490 \<le> stddev" and "stddev \<le> 1000"
    and "\<bar>mean\<bar> \<le> 2 ^ 40 * stddev"
    and "2 \<le> numPoints" and "numPoints \<le> 2 ^ 32"
    and "p \<in> set (normalCurvePoints (Fin mean) (Fin stddev) numPoints)"
  shows "\<exists>y. pt_y p = Fin y \<and> 0 < y"
proof -
  from assms(6) obtain i where i: "0 \<le> i" "i \<le> numPoints - 1"
    and p: "p = curveSample (Fin mean) (Fin stddev) numPoints i"
    by (auto simp: normalCurvePoints_eq)
  from curveSample_y_pos [OF assms(1-5) i] p show ?thesis by simp
qed

text \<open>
  The claim as first stated (every \<open>y\<close> strictly positive for all finite inputs) fails: with
  \<open>stddev = 10^7\<close> the density is below \<open>5 * 10^-7\<close> everywhere and \<^verbatim>\<open>toFixed(6)\<close> rounds it
  to 0.
\<close>

theorem normalCurvePoints_y_counterexample:
  "map pt_y (normalCurvePoints (Fin 170) (Fin 10000000) 3) = [Fin 0, Fin 0, Fin 0]"
proof -
  have hi: "(10000000::real) \<le> 2 ^ 490"
  proof -
    have "(10000000::real) \<le> 2 ^ 24" by simp
    also have "\<dots> \<le> 2 ^ 490" by (rule power_increasing) simp_all
    finally show ?thesis .
  qed
  have mu: "\<bar>170 :: real\<bar> \<le> 2 ^ 40 * 10000000" by simp
  have "pt_y (curveSample (Fin 170) (Fin 10000000) 3 i) = Fin 0" if "0 \<le> i" "i \<le> 3 - 1" for i
    by (rule curveSample_y_zero [OF _ hi mu _ _ that]) simp_all
  then show ?thesis
    by (simp add: normalCurvePoints_eq upto_0_2)
qed

theorem normalCurvePoints_y_witness:
  "1 / 2 ^ 490 \<le> (10::real) \<and> (10::real) \<le> 1000 \<and> \<bar>170 :: real\<bar> \<le> 2 ^ 40 * 10
   \<and> (2::int) \<le> 3 \<and> (3::int) \<le> 2 ^ 32
   \<and> hd (normalCurvePoints (Fin 170) (Fin 10) 3) \<in> set (normalCurvePoints (Fin 170) (Fin 10) 3)
   \<and> (\<exists>y. pt_y (hd (normalCurvePoints (Fin 170) (Fin 10) 3)) = Fin y \<and> 0 < y)"
proof -
  have a: "1 / 2 ^ 490 \<le> (10::real)"
  proof -
    have "(1::real) / 2 ^ 490 \<le> 1" by simp
    then show ?thesis by linarith
  qed
  have b: "(10::real) \<le> 1000" and c: "\<bar>170 :: real\<bar> \<le> 2 ^ 40 * 10"
    and d: "(2::int) \<le> 3" and e: "(3::int) \<le> 2 ^ 32" by simp_all
  have f: "hd (normalCurvePoints (Fin 170) (Fin 10) 3)
      \<in> set (normalCurvePoints (Fin 170) (Fin 10) 3)"
    by (simp add: normalCurvePoints_eq upto_0_2)
  from normalCurvePoints_y [OF a b c d e f] a b c d e f show ?thesis by blast
qed

section \<open>Properties of the circumference estimator and the scaler\<close>

lemma circle_sum:
  assumes a: "1 / 2 ^ 537 \<le> a"
  shows "1 / 2 ^ 537 \<le> rnd (2 * a)"
proof -
  define d :: real where "d = 1 / 2 ^ 537"
  have d0: "0 < d" by (simp add: d_def)
  have "(1::real) / 2 ^ 1075 \<le> 1 / 2 ^ 537 / 4" by (simp add: divide_simps)
  then have e: "1 / 2 ^ 1075 \<le> d / 4" by (simp only: d_def)
  have ad: "d \<le> a" using a by (simp only: d_def)
  have "\<bar>rnd (2 * a) - 2 * a\<bar> \<le> \<bar>2 * a\<bar> / 2 ^ 53 + 1 / 2 ^ 1075"
    by (rule rnd_error)
  then have "d \<le> rnd (2 * a)"
    using e ad d0 by (simp add: abs_if split: if_splits)
  then show ?thesis by (simp only: d_def)
qed

lemma circle_h:
  assumes a: "1 / 2 ^ 537 \<le> a"
  shows "fdiv (Fin 0) (fsquare (fl (2 * a))) = Fin 0"
proof -
  have a0: "0 \<le> 2 * a"
  proof -
    have "(0::real) \<le> 1 / 2 ^ 537" by simp
    then show ?thesis using a by linarith
  qed
  have sq: "fdiv (Fin 0) (fl (s ^ 2)) = Fin 0" if s: "1 / 2 ^ 537 \<le> s" for s :: real
  proof -
    have "(1 / 2 ^ 537) ^ 2 \<le> s ^ 2"
      using s by (intro power_mono) simp_all
    moreover have "((1::real) / 2 ^ 537) ^ 2 = 1 / 2 ^ 1074"
      by (simp add: power_divide power_mult [symmetric])
    ultimately have "1 / 2 ^ 1074 \<le> s ^ 2" by (simp only:)
    then have p: "0 < rnd (s ^ 2)" by (rule rnd_pos)
    show ?thesis
      by (rule fl_cases [of "s ^ 2"]) (use p in simp_all)
  qed
  show ?thesis
  proof (rule fl_cases [of "2 * a"])
    assume "fl (2 * a) = PInf"
    then show ?thesis by simp
  next
    assume "rnd (2 * a) < 0"
    then show ?thesis using rnd_nonneg [OF a0] by simp
  next
    assume f: "fl (2 * a) = Fin (rnd (2 * a))"
    show ?thesis
      using sq [OF circle_sum [OF a]] by (simp add: f)
  qed
qed

lemma fmul_PI_one: "fmul (fmul Math_PI (fl y)) (Fin 1) = fmul Math_PI (fl y)"
  by (rule fl_cases [of y]) (simp_all add: Math_PI_def fmul_one)

lemma circle_value:
  assumes a: "1 / 2 ^ 537 \<le> a"
  shows "computeChestCircumference (Fin a) (Fin a) =
     fdiv (fround (fmul (fmul Math_PI (fadd (Fin a) (Fin a))) (Fin 10))) (Fin 10)"
proof -
  have "(0::real) < 1 / 2 ^ 537" by simp
  then have a0: "0 < a" using a by linarith
  have s: "fsqrt (Fin 4) = Fin 2" by simp
  show ?thesis
    using a0 by (simp add: computeChestCircumference_def Let_def circle_h [OF a] fsub_def s fmul_PI_one)
qed

lemma guard_zero:
  "fle a (Fin 0) \<or> fle b (Fin 0) \<Longrightarrow> computeChestCircumference a b = Fin 0"
  by (simp add: computeChestCircumference_def)

lemma circle_underflow:
  "computeChestCircumference (Fin (1 / 2 ^ 600)) (Fin (1 / 2 ^ 600)) = NaN"
proof -
  define a :: real where "a = 1 / 2 ^ 600"
  have a0: "0 < a" by (simp add: a_def)
  have e: "2 * a = 2 powi (- 599)"
    by (simp add: a_def power_int_minus divide_simps)
  have r: "rnd (2 * a) = 2 * a"
    unfolding e by (rule rnd_pow2) simp
  have "\<bar>2 * a\<bar> \<le> 1" by (simp add: a_def divide_simps)
  then have "fl (2 * a) = Fin (rnd (2 * a))" by (rule fl_small)
  then have f: "fl (2 * a) = Fin (2 * a)" by (simp only: r)
  have "\<bar>(2 * a) ^ 2\<bar> < 1 / 2 ^ 1075"
    by (simp add: a_def power_divide divide_simps)
  then have z: "rnd ((2 * a) ^ 2) = 0" by (rule rnd_tiny)
  have sq: "fl ((2 * a) ^ 2) = Fin 0"
    by (simp only: fl_def z Let_def) simp
  then have "computeChestCircumference (Fin a) (Fin a) = NaN"
    using a0 by (simp add: computeChestCircumference_def Let_def fsub_def f sq)
  then show ?thesis by (simp only: a_def)
qed

lemma circle_error:
  assumes lo: "1 / 2 ^ 537 \<le> a" and hi: "a \<le> 2 ^ 1000"
  shows "\<exists>v. fdiv (fround (fmul (fmul Math_PI (fadd (Fin a) (Fin a))) (Fin 10))) (Fin 10) = Fin v
           \<and> \<bar>v - 2 * val Math_PI * a\<bar> \<le> 1 / 20 + (a + 1) / 2 ^ 46"
proof -
  define P :: real where "P = 884279719003555 / 2 ^ 48"
  define tt :: real where "tt = 1 / 2 ^ 1000"
  define H :: real where "H = 2 ^ 1023"
  have p52: "(2::real) ^ 52 = 4503599627370496" by simp
  have p46: "(2::real) ^ 46 = 70368744177664" by simp
  note eb = rnd_err_bound [folded tt_def, unfolded p52]
  note fb = fl_finite_bound [folded H_def]
  have mp: "Math_PI = Fin P" by (simp add: Math_PI_def P_def)
  have P: "0 \<le> P" "P \<le> 4" by (simp_all add: P_def)
  have tt0: "0 < tt" by (simp add: tt_def)
  have "(1::real) / 2 ^ 1000 \<le> 1 / 2 ^ 537"
    by (intro divide_left_mono power_increasing) simp_all
  then have t: "tt \<le> a" using lo by (simp only: tt_def)
  have a0: "0 < a" using t tt0 by linarith
  have big: "100 * a + 2 \<le> H"
  proof -
    define T :: real where "T = 2 ^ 1000"
    have "H = 2 ^ 23 * T" by (simp add: H_def T_def power_add [symmetric])
    moreover have "1 \<le> T" unfolding T_def by (rule one_le_power) simp
    moreover have "a \<le> T" using hi by (simp only: T_def)
    ultimately show ?thesis by simp
  qed
  define s where "s = rnd (a + a)"
  define p1 where "p1 = rnd (P * s)"
  define p2 where "p2 = rnd (p1 * 10)"
  define k where "k = \<lfloor>p2 + 1 / 2\<rfloor>"
  define kr where "kr = real_of_int k"
  define k' where "k' = rnd kr"
  define v where "v = rnd (k' / 10)"
  have e0: "\<bar>s - (a + a)\<bar> \<le> (2 * a) / 4503599627370496"
    unfolding s_def by (rule eb) (use a0 t in linarith)+
  have f1: "fl (a + a) = Fin s"
    unfolding s_def by (rule fb [where B = "2 * a"]) (use a0 big in linarith)+
  have b1: "\<bar>P * s\<bar> \<le> 9 * a"
  proof -
    have "\<bar>P * s\<bar> = P * \<bar>s\<bar>" using P(1) by (simp add: abs_mult)
    also have "\<dots> \<le> 4 * \<bar>s\<bar>" using P(2) by (intro mult_right_mono) simp_all
    finally show ?thesis using e0 a0 by linarith
  qed
  have e1: "\<bar>p1 - P * s\<bar> \<le> (9 * a) / 4503599627370496"
    unfolding p1_def by (rule eb [OF b1]) (use a0 t in linarith)
  have f2: "fl (P * s) = Fin p1"
    unfolding p1_def by (rule fb [OF b1]) (use a0 big in linarith)
  have b2: "\<bar>p1 * 10\<bar> \<le> 91 * a"
    using b1 e1 a0 by linarith
  have e2: "\<bar>p2 - p1 * 10\<bar> \<le> (91 * a) / 4503599627370496"
    unfolding p2_def by (rule eb [OF b2]) (use a0 t in linarith)
  have f3: "fl (p1 * 10) = Fin p2"
    unfolding p2_def by (rule fb [OF b2]) (use a0 big in linarith)
  have kk: "\<bar>kr - p2\<bar> \<le> 1 / 2"
    unfolding kr_def k_def by linarith
  have b3: "\<bar>kr\<bar> \<le> 92 * a + 1"
    using kk b2 e2 a0 by linarith
  have "\<bar>k' - kr\<bar> \<le> (92 * a + 1) / 4503599627370496"
    unfolding k'_def by (rule eb [OF b3]) (use a0 t in linarith)
  then have e3: "\<bar>k' - kr\<bar> \<le> 92 * a / 4503599627370496 + 1 / 4503599627370496"
    by (simp only: add_divide_distrib)
  have f4: "fl kr = Fin k'"
    unfolding k'_def by (rule fb [OF b3]) (use a0 big in linarith)
  have b4: "\<bar>k' / 10\<bar> \<le> 10 * a + 1"
  proof -
    have "\<bar>k'\<bar> \<le> 93 * a + 2" using b3 e3 a0 by linarith
    then have "\<bar>k'\<bar> / 10 \<le> 10 * a + 1" using a0 by linarith
    then show ?thesis by simp
  qed
  have "\<bar>v - k' / 10\<bar> \<le> (10 * a + 1) / 4503599627370496"
    unfolding v_def by (rule eb [OF b4]) (use a0 t in linarith)
  then have e4: "\<bar>v - k' / 10\<bar> \<le> 10 * a / 4503599627370496 + 1 / 4503599627370496"
    by (simp only: add_divide_distrib)
  have f5: "fl (k' / 10) = Fin v"
    unfolding v_def by (rule fb [OF b4]) (use a0 big in linarith)
  have c1: "fadd (Fin a) (Fin a) = Fin s" by (simp only: fadd.simps f1)
  have c2: "fmul Math_PI (Fin s) = Fin p1" by (simp only: mp fmul.simps f2)
  have c3: "fmul (Fin p1) (Fin 10) = Fin p2" by (simp only: fmul.simps f3)
  have c4: "fround (Fin p2) = Fin k'" by (simp only: fround.simps f4 k_def [symmetric] kr_def [symmetric])
  have c5: "fdiv (Fin k') (Fin 10) = Fin v" using f5 by simp
  have res: "fdiv (fround (fmul (fmul Math_PI (fadd (Fin a) (Fin a))) (Fin 10))) (Fin 10) = Fin v"
    by (simp only: c1 c2 c3 c4 c5)
  have d: "\<bar>P * s - 2 * P * a\<bar> \<le> 4 * \<bar>s - (a + a)\<bar>"
  proof -
    have "P * s - 2 * P * a = P * (s - (a + a))" by (simp add: algebra_simps)
    then have "\<bar>P * s - 2 * P * a\<bar> = P * \<bar>s - (a + a)\<bar>"
      using P(1) by (simp only: abs_mult abs_of_nonneg)
    also have "\<dots> \<le> 4 * \<bar>s - (a + a)\<bar>" using P(2) by (intro mult_right_mono) simp_all
    finally show ?thesis .
  qed
  define X where "X = P * s"
  define Y where "Y = 2 * P * a"
  have a1: "\<bar>p1 - Y\<bar> \<le> 17 * a / 4503599627370496"
    using d e0 e1 a0 unfolding X_def [symmetric] Y_def [symmetric] by argo
  have a2: "\<bar>p2 - 10 * Y\<bar> \<le> 261 * a / 4503599627370496"
    using a1 e2 a0 by linarith
  have a3: "\<bar>kr - 10 * Y\<bar> \<le> 1 / 2 + 261 * a / 4503599627370496"
    using a2 kk by linarith
  have a4: "\<bar>k' - 10 * Y\<bar> \<le> 1 / 2 + 353 * a / 4503599627370496 + 1 / 4503599627370496"
    using a3 e3 by linarith
  have a5: "\<bar>k' / 10 - Y\<bar> \<le> 1 / 20 + 36 * a / 4503599627370496 + 1 / 4503599627370496"
    using a4 a0 by linarith
  have "\<bar>v - Y\<bar> \<le> 1 / 20 + (a / 70368744177664 + 1 / 70368744177664)"
    using a5 e4 a0 by linarith
  then have "\<bar>v - 2 * P * a\<bar> \<le> 1 / 20 + (a / 70368744177664 + 1 / 70368744177664)"
    by (simp only: Y_def)
  then have "\<bar>v - 2 * P * a\<bar> \<le> 1 / 20 + (a + 1) / 2 ^ 46"
    by (simp only: add_divide_distrib p46)
  moreover have "val Math_PI = P" by (simp add: mp)
  ultimately show ?thesis using res by simp
qed

text \<open>
  Claim C7, amended. For every \<open>a \<ge> 2^-537\<close> the correction term of the Ramanujan formula
  vanishes and \<^verbatim>\<open>computeChestCircumference(a, a)\<close> is \<^verbatim>\<open>Math.round(Math.PI * (a + a) * 10) / 10\<close>
  evaluated in doubles; if also \<open>a \<le> 2^1000\<close>, this is a finite double at most
  \<open>1/20 + (a + 1) / 2^46\<close> away from \<open>2 * Math.PI * a\<close>. And whenever \<open>a \<le> 0\<close> or \<open>b \<le> 0\<close>,
  \<^verbatim>\<open>computeChestCircumference(a, b)\<close> is 0.
\<close>

theorem chest_circle_and_guard:
  "(1 / 2 ^ 537 \<le> a \<longrightarrow>
      computeChestCircumference (Fin a) (Fin a) =
        fdiv (fround (fmul (fmul Math_PI (fadd (Fin a) (Fin a))) (Fin 10))) (Fin 10))
   \<and> (1 / 2 ^ 537 \<le> a \<and> a \<le> 2 ^ 1000 \<longrightarrow>
      (\<exists>v. computeChestCircumference (Fin a) (Fin a) = Fin v
         \<and> \<bar>v - 2 * val Math_PI * a\<bar> \<le> 1 / 20 + (a + 1) / 2 ^ 46))
   \<and> (fle x (Fin 0) \<or> fle y (Fin 0) \<longrightarrow> computeChestCircumference x y = Fin 0)"
proof -
  have "\<exists>v. computeChestCircumference (Fin a) (Fin a) = Fin v
         \<and> \<bar>v - 2 * val Math_PI * a\<bar> \<le> 1 / 20 + (a + 1) / 2 ^ 46"
    if "1 / 2 ^ 537 \<le> a" "a \<le> 2 ^ 1000"
    using circle_error [OF that] by (simp only: circle_value [OF that(1)])
  then show ?thesis
    using circle_value [of a] guard_zero [of x y] by blast
qed

theorem chest_circle_and_guard_witness:
  "1 / 2 ^ 537 \<le> (5::real) \<and> (5::real) \<le> 2 ^ 1000
   \<and> computeChestCircumference (Fin 5) (Fin 5) =
        fdiv (fround (fmul (fmul Math_PI (fadd (Fin 5) (Fin 5))) (Fin 10))) (Fin 10)
   \<and> (\<exists>v. computeChestCircumference (Fin 5) (Fin 5) = Fin v
         \<and> \<bar>v - 2 * val Math_PI * 5\<bar> \<le> 1 / 20 + (5 + 1) / 2 ^ 46)
   \<and> fle (Fin (- 1)) (Fin 0)
   \<and> computeChestCircumference (Fin (- 1)) (Fin 7) = Fin 0
   \<and> fle NInf (Fin 0)
   \<and> computeChestCircumference (Fin 7) NInf = Fin 0"
proof -
  have lo: "1 / 2 ^ 537 \<le> (5::real)"
  proof -
    have "(1::real) / 2 ^ 537 \<le> 1" by simp
    then show ?thesis by linarith
  qed
  have hi: "(5::real) \<le> 2 ^ 1000"
  proof -
    have "(2::real) ^ 3 \<le> 2 ^ 1000" by (rule power_increasing) simp_all
    then show ?thesis by simp
  qed
  have g1: "fle (Fin (- 1)) (Fin 0)" and g2: "fle NInf (Fin 0)" by simp_all
  from lo hi g1 g2
    chest_circle_and_guard [of 5 "Fin (- 1)" "Fin 7"]
    chest_circle_and_guard [of 5 "Fin 7" NInf]
  show ?thesis by blast
qed

text \<open>
  The claim as first stated (for every \<open>a > 0\<close>) fails on doubles: for the double
  \<open>a = 2^-600\<close> the square of \<open>a + a\<close> underflows to 0, \<open>h\<close> is \<^verbatim>\<open>0 / 0\<close>, and the result is
  \<^verbatim>\<open>NaN\<close>.
\<close>

theorem chest_circle_and_guard_counterexample:
  "(0::real) < 1 / 2 ^ 600 \<and> rnd (1 / 2 ^ 600) = 1 / 2 ^ 600
   \<and> computeChestCircumference (Fin (1 / 2 ^ 600)) (Fin (1 / 2 ^ 600)) = NaN"
proof -
  have "(1::real) / 2 ^ 600 = 2 powi (- 600)"
    by (simp add: power_int_minus divide_simps)
  moreover have "rnd (2 powi (- 600)) = 2 powi (- 600)"
    by (rule rnd_pow2) simp
  ultimately have "rnd (1 / 2 ^ 600) = 1 / 2 ^ 600" by (simp only:)
  moreover have "(0::real) < 1 / 2 ^ 600" by simp
  ultimately show ?thesis using circle_underflow by blast
qed

lemma r_one_decimal: "\<exists>k::int. r v = of_int k / 10 \<and> \<bar>r v - v\<bar> \<le> 1 / 20"
proof -
  define k where "k = \<lfloor>v * 10 + 1 / 2\<rfloor>"
  have "of_int k \<le> v * 10 + 1 / 2" and "v * 10 + 1 / 2 < of_int k + 1"
    unfolding k_def by linarith+
  then have "\<bar>of_int k / 10 - v\<bar> \<le> 1 / 20" by linarith
  then show ?thesis
    by (auto simp: r_def Math_round_def k_def)
qed

text \<open>
  Claim C4. \<^verbatim>\<open>scaleMeasurements\<close> takes the effective height \<open>userHeightCm * 0.56\<close> in upper-body
  mode and \<open>userHeightCm\<close> otherwise; the scale factor is the effective height divided by
  \<open>bodyHeightPx\<close> when that is positive and 1 otherwise; every length of the result is the
  pixel length times the scale factor, rounded to one decimal by \<open>r\<close>: a multiple of
  \<open>1/10\<close> at most \<open>1/20\<close> away.
\<close>

theorem scaleMeasurements_spec:
  fixes raw :: "real RawMeasurements" and userHeightCm :: real and mode :: ScanMode
  defines "effectiveHeight \<equiv> (if mode = UpperBody then userHeightCm * 0.56 else userHeightCm)"
  defines "sf \<equiv> (if bodyHeightPx raw > 0 then effectiveHeight / bodyHeightPx raw else 1)"
  defines "m \<equiv> scaleMeasurements raw userHeightCm mode"
  shows "scaleFactor m = sf
   \<and> shoulderWidthCm m = r (shoulderWidthPx raw * sf)
   \<and> hipWidthCm m = r (hipWidthPx raw * sf)
   \<and> legLengthCm m = r (legLengthPx raw * sf)
   \<and> torsoLengthCm m = r (torsoLengthPx raw * sf)
   \<and> armLengthCm m = r (armLengthPx raw * sf)
   \<and> wingspanCm m = r (wingspanPx raw * sf)
   \<and> (\<forall>v. \<exists>k::int. r v = of_int k / 10 \<and> \<bar>r v - v\<bar> \<le> 1 / 20)"
  unfolding m_def sf_def effectiveHeight_def
  using r_one_decimal by (simp add: scaleMeasurements_def Let_def)


theorem scaleMeasurements_spec_witness:
  "scaleFactor (scaleMeasurements rawSample 175 FullBody) = 0.35
   \<and> shoulderWidthCm (scaleMeasurements rawSample 175 FullBody) = 20.2
   \<and> scaleFactor (scaleMeasurements rawSample 175 UpperBody) = 0.196
   \<and> scaleFactor (scaleMeasurements (rawSample\<lparr>bodyHeightPx := 0\<rparr>) 175 FullBody) = 1"
  using scaleMeasurements_spec [of rawSample 175 FullBody]
    scaleMeasurements_spec [of rawSample 175 UpperBody]
    scaleMeasurements_spec [of "rawSample\<lparr>bodyHeightPx := 0\<rparr>" 175 FullBody]
  by (simp add: rawSample_def r_def Math_round_def)

section \<open>Properties of the quality validator\<close>

lemma allVisible_iff:
  "allVisible lms idxs =
     (\<forall>idx \<in> set idxs. idx < length lms \<and> isVisible (lms ! idx))"
  by (induction idxs) (auto simp: landmarkAt_def)

text \<open>
  Claim C8. In full-body mode, a landmark set of at least 33 points whose required landmarks
  (nose, shoulders, hips, ankles: indices 0, 11, 12, 23, 24, 27, 28) are visible and whose
  nose has \<open>y = 0.05\<close> is rejected with the reason "Move back (em dash) head cut off".
\<close>

theorem fullBody_head_cut_off:
  assumes "33 \<le> length lms"
    and "\<forall>idx \<in> set FULL_BODY_LANDMARKS. isVisible (lms ! idx)"
    and "lm_y (lms ! 0) = 0.05"
  shows "checkLandmarkQualityForMode lms frameWidth frameHeight (Scan FullBody) =
           \<lparr>valid = False, reason = ''Move back '' @ em_dash @ '' head cut off''\<rparr>"
proof -
  have "\<forall>idx \<in> set FULL_BODY_LANDMARKS. idx < length lms"
    using assms(1) by (auto simp: FULL_BODY_LANDMARKS_def)
  with assms(2) have vis: "allVisible lms FULL_BODY_LANDMARKS"
    by (simp add: allVisible_iff)
  show ?thesis
    using assms(1) assms(3) vis
    by (simp add: checkLandmarkQualityForMode_def checkFullBodyQuality_def Let_def)
qed

lemma headCutFrame_facts:
  "33 \<le> length headCutFrame"
  "\<forall>idx \<in> set FULL_BODY_LANDMARKS. isVisible (headCutFrame ! idx)"
  "lm_y (headCutFrame ! 0) = 0.05"
  by (simp_all add: headCutFrame_def landmarkAtY_def FULL_BODY_LANDMARKS_def isVisible_def
      VISIBILITY_THRESHOLD_def)

theorem fullBody_head_cut_off_witness:
  "33 \<le> length headCutFrame
   \<and> list_all (\<lambda>idx. isVisible (headCutFrame ! idx)) FULL_BODY_LANDMARKS
   \<and> lm_y (headCutFrame ! 0) = 0.05
   \<and> checkLandmarkQualityForMode headCutFrame 640 480 (Scan FullBody) =
        \<lparr>valid = False, reason = ''Move back '' @ em_dash @ '' head cut off''\<rparr>"
  using fullBody_head_cut_off [OF headCutFrame_facts, of 640 480] headCutFrame_facts
  by (simp add: list_all_iff)

lemma headCutFrame_rejected:
  "\<not> valid (checkLandmarkQualityForMode headCutFrame 640 480 (Scan FullBody))"
  using fullBody_head_cut_off [OF headCutFrame_facts, of 640 480] by simp

lemma goodFrame_accepted:
  "valid (checkLandmarkQualityForMode goodFrame 640 480 (Scan FullBody))"
  by (simp add: checkLandmarkQualityForMode_def checkFullBodyQuality_def Let_def goodFrame_def
      landmarkAtY_def FULL_BODY_LANDMARKS_def landmarkAt_def isVisible_def
      VISIBILITY_THRESHOLD_def)

section \<open>Properties of the capture state machine\<close>

lemma pushBounded_length:
  "length buf \<le> MAX_BUFFER \<Longrightarrow> length (pushBounded buf v) \<le> MAX_BUFFER"
  by (simp add: pushBounded_def Let_def)

lemma pushBounded_full:
  "length buf = MAX_BUFFER \<Longrightarrow> pushBounded buf v = tl buf @ [v]"
  by (cases buf) (simp_all add: pushBounded_def Let_def MAX_BUFFER_def)

lemma pushBounded_room:
  "length buf < MAX_BUFFER \<Longrightarrow> pushBounded buf v = buf @ [v]"
  by (simp add: pushBounded_def Let_def)

lemma tick_rawFrameBuffer:
  "rawFrameBuffer (tick mode req (Some lms) w h st) =
     (if valid (checkLandmarkQualityForMode lms w h mode) \<and> mode \<noteq> Scan Face
      then pushBounded (rawFrameBuffer st)
             (if mode = Scan FullBody then extractRawMeasurements lms w h
              else extractUpperBodyMeasurements lms w h)
      else rawFrameBuffer st)"
  by (auto simp: tick_def Let_def)

lemma tick_faceFrameBuffer:
  "faceFrameBuffer (tick mode req (Some lms) w h st) =
     (if valid (checkLandmarkQualityForMode lms w h mode) \<and> mode = Scan Face
      then pushBounded (faceFrameBuffer st) (extractFaceMeasurements lms w h)
      else faceFrameBuffer st)"
  by (auto simp: tick_def Let_def)

lemma tick_None_buffers:
  "rawFrameBuffer (tick mode req None w h st) = []"
  "faceFrameBuffer (tick mode req None w h st) = []"
  by (simp_all add: tick_def)

lemma tick_buffersBounded:
  "buffersBounded st \<Longrightarrow> buffersBounded (tick mode req result w h st)"
  by (cases result)
     (simp_all add: buffersBounded_def tick_None_buffers tick_rawFrameBuffer tick_faceFrameBuffer
        pushBounded_length)

lemma run_buffersBounded:
  "buffersBounded st \<Longrightarrow> buffersBounded (run mode req frames st)"
  by (induction frames arbitrary: st) (auto simp: tick_buffersBounded)

lemma initialView_buffersBounded: "buffersBounded initialView"
  by (simp add: buffersBounded_def initialView_def)

text \<open>
  Claim C9. After any sequence of processed frames of a scan session neither averaging
  buffer holds more than 60 frames; and when an accepted frame is appended to a buffer that
  holds 60, the result is the old buffer without its first (oldest) frame, followed by the
  new frame. Below 60 the frame is appended and nothing is removed.
\<close>

theorem buffers_bounded_fifo:
  "length (rawFrameBuffer (run mode req frames initialView)) \<le> 60
   \<and> length (faceFrameBuffer (run mode req frames initialView)) \<le> 60
   \<and> (valid (checkLandmarkQualityForMode lms w h mode) \<and> mode \<noteq> Scan Face
        \<and> length (rawFrameBuffer st) = 60 \<longrightarrow>
      rawFrameBuffer (tick mode req (Some lms) w h st) =
        tl (rawFrameBuffer st) @
          [if mode = Scan FullBody then extractRawMeasurements lms w h
           else extractUpperBodyMeasurements lms w h])
   \<and> (valid (checkLandmarkQualityForMode lms w h mode) \<and> mode = Scan Face
        \<and> length (faceFrameBuffer st) = 60 \<longrightarrow>
      faceFrameBuffer (tick mode req (Some lms) w h st) =
        tl (faceFrameBuffer st) @ [extractFaceMeasurements lms w h])
   \<and> (valid (checkLandmarkQualityForMode lms w h mode) \<and> mode \<noteq> Scan Face
        \<and> length (rawFrameBuffer st) < 60 \<longrightarrow>
      rawFrameBuffer (tick mode req (Some lms) w h st) =
        rawFrameBuffer st @
          [if mode = Scan FullBody then extractRawMeasurements lms w h
           else extractUpperBodyMeasurements lms w h])
   \<and> (valid (checkLandmarkQualityForMode lms w h mode) \<and> mode = Scan Face
        \<and> length (faceFrameBuffer st) < 60 \<longrightarrow>
      faceFrameBuffer (tick mode req (Some lms) w h st) =
        faceFrameBuffer st @ [extractFaceMeasurements lms w h])"
proof -
  have "buffersBounded (run mode req frames initialView)"
    by (rule run_buffersBounded [OF initialView_buffersBounded])
  then have bound: "length (rawFrameBuffer (run mode req frames initialView)) \<le> 60"
    "length (faceFrameBuffer (run mode req frames initialView)) \<le> 60"
    by (simp_all add: buffersBounded_def MAX_BUFFER_def)
  have raw: "rawFrameBuffer (tick mode req (Some lms) w h st) =
        tl (rawFrameBuffer st) @
          [if mode = Scan FullBody then extractRawMeasurements lms w h
           else extractUpperBodyMeasurements lms w h]"
    if "valid (checkLandmarkQualityForMode lms w h mode)" "mode \<noteq> Scan Face"
      "length (rawFrameBuffer st) = 60"
    using that by (simp add: tick_rawFrameBuffer pushBounded_full MAX_BUFFER_def)
  have fc: "faceFrameBuffer (tick mode req (Some lms) w h st) =
        tl (faceFrameBuffer st) @ [extractFaceMeasurements lms w h]"
    if "valid (checkLandmarkQualityForMode lms w h mode)" "mode = Scan Face"
      "length (faceFrameBuffer st) = 60"
    using that by (simp add: tick_faceFrameBuffer pushBounded_full MAX_BUFFER_def)
  have raw': "rawFrameBuffer (tick mode req (Some lms) w h st) =
        rawFrameBuffer st @
          [if mode = Scan FullBody then extractRawMeasurements lms w h
           else extractUpperBodyMeasurements lms w h]"
    if "valid (checkLandmarkQualityForMode lms w h mode)" "mode \<noteq> Scan Face"
      "length (rawFrameBuffer st) < 60"
    using that by (simp add: tick_rawFrameBuffer pushBounded_room MAX_BUFFER_def)
  have fc': "faceFrameBuffer (tick mode req (Some lms) w h st) =
        faceFrameBuffer st @ [extractFaceMeasurements lms w h]"
    if "valid (checkLandmarkQualityForMode lms w h mode)" "mode = Scan Face"
      "length (faceFrameBuffer st) < 60"
    using that by (simp add: tick_faceFrameBuffer pushBounded_room MAX_BUFFER_def)
  from bound raw fc raw' fc' show ?thesis by blast
qed

lemma tick_counter_Some:
  "goodFrameCountRef (tick mode req (Some lms) w h st) =
     (if valid (checkLandmarkQualityForMode lms w h mode)
      then min (goodFrameCountRef st + 1) req
      else max 0 (goodFrameCountRef st - 2))"
  by (simp add: tick_def Let_def)

lemma tick_counter_None: "goodFrameCountRef (tick mode req None w h st) = 0"
  by (simp add: tick_def)

lemma tick_canCapture_Some:
  "canCapture (tick mode req (Some lms) w h st) =
     (if valid (checkLandmarkQualityForMode lms w h mode)
      then (if min (goodFrameCountRef st + 1) req \<ge> req then True else canCapture st)
      else (if max 0 (goodFrameCountRef st - 2) < req then False else canCapture st))"
  by (simp add: tick_def Let_def)

lemma tick_canCapture_None: "\<not> canCapture (tick mode req None w h st)"
  by (simp add: tick_def)

lemma tick_counterInRange:
  "0 \<le> req \<Longrightarrow> counterInRange req st \<Longrightarrow> counterInRange req (tick mode req result w h st)"
  by (cases result) (auto simp: counterInRange_def tick_counter_None tick_counter_Some)

lemma run_counterInRange:
  "0 \<le> req \<Longrightarrow> counterInRange req st \<Longrightarrow> counterInRange req (run mode req frames st)"
  by (induction frames arbitrary: st) (auto simp: tick_counterInRange)

lemma initialView_counterInRange: "0 \<le> req \<Longrightarrow> counterInRange req initialView"
  by (simp add: counterInRange_def initialView_def)

lemma tick_readyIffFull:
  "1 \<le> req \<Longrightarrow> readyIffFull req st \<Longrightarrow> readyIffFull req (tick mode req result w h st)"
  by (cases result)
     (auto simp: readyIffFull_def counterInRange_def tick_counter_None tick_counter_Some
        tick_canCapture_None tick_canCapture_Some)

lemma run_readyIffFull:
  "1 \<le> req \<Longrightarrow> readyIffFull req st \<Longrightarrow> readyIffFull req (run mode req frames st)"
  by (induction frames arbitrary: st) (auto simp: tick_readyIffFull)

lemma initialView_readyIffFull: "1 \<le> req \<Longrightarrow> readyIffFull req initialView"
  by (simp add: readyIffFull_def counterInRange_def initialView_def)

theorem buffers_bounded_fifo_witness:
  "length (rawFrameBuffer (run (Scan FullBody) 30
      [(Some goodFrame, 640, 480), (Some headCutFrame, 640, 480)] initialView)) \<le> 60
   \<and> valid (checkLandmarkQualityForMode goodFrame 640 480 (Scan FullBody))
   \<and> Scan FullBody \<noteq> Scan Face
   \<and> length (rawFrameBuffer (initialView\<lparr>rawFrameBuffer := frameB # replicate 59 frameA\<rparr>)) = 60
   \<and> rawFrameBuffer (tick (Scan FullBody) 30 (Some goodFrame) 640 480
        (initialView\<lparr>rawFrameBuffer := frameB # replicate 59 frameA\<rparr>)) =
      replicate 59 frameA @ [extractRawMeasurements goodFrame 640 480]"
proof -
  let ?st = "initialView\<lparr>rawFrameBuffer := frameB # replicate 59 frameA\<rparr>"
  have len: "length (rawFrameBuffer ?st) = 60" by simp
  have ne: "Scan FullBody \<noteq> Scan Face" by simp
  from buffers_bounded_fifo [of "Scan FullBody" 30
      "[(Some goodFrame, 640, 480), (Some headCutFrame, 640, 480)]" goodFrame 640 480 ?st]
    goodFrame_accepted len ne
  show ?thesis by simp
qed

text \<open>
  Claim C10. With a threshold \<open>requiredGoodFrames \<ge> 0\<close>, the good-frame counter lies in
  \<open>[0, requiredGoodFrames]\<close> after every processed frame of a session, and every processed
  frame keeps it there; a rejected frame at a counter of at most 2 leaves it at 0 (the
  decrement is clamped at 0), an accepted frame at a counter of at least
  \<open>requiredGoodFrames - 1\<close> leaves it at \<open>requiredGoodFrames\<close> (the increment is clamped).
\<close>

theorem counter_in_range:
  assumes "0 \<le> req"
  shows "0 \<le> goodFrameCountRef (run mode req frames initialView)
   \<and> goodFrameCountRef (run mode req frames initialView) \<le> req
   \<and> (0 \<le> goodFrameCountRef st \<and> goodFrameCountRef st \<le> req \<longrightarrow>
        0 \<le> goodFrameCountRef (tick mode req result w h st)
        \<and> goodFrameCountRef (tick mode req result w h st) \<le> req)
   \<and> (\<not> valid (checkLandmarkQualityForMode lms w h mode) \<and> goodFrameCountRef st \<le> 2 \<longrightarrow>
        goodFrameCountRef (tick mode req (Some lms) w h st) = 0)
   \<and> (valid (checkLandmarkQualityForMode lms w h mode) \<and> req \<le> goodFrameCountRef st + 1 \<longrightarrow>
        goodFrameCountRef (tick mode req (Some lms) w h st) = req)"
proof -
  have "counterInRange req (run mode req frames initialView)"
    using assms by (intro run_counterInRange initialView_counterInRange)
  then have a: "0 \<le> goodFrameCountRef (run mode req frames initialView)"
    "goodFrameCountRef (run mode req frames initialView) \<le> req"
    by (simp_all add: counterInRange_def)
  have b: "0 \<le> goodFrameCountRef (tick mode req result w h st)
        \<and> goodFrameCountRef (tick mode req result w h st) \<le> req"
    if "0 \<le> goodFrameCountRef st \<and> goodFrameCountRef st \<le> req"
    using tick_counterInRange [OF assms, of st mode result w h] that
    by (simp add: counterInRange_def)
  have c: "goodFrameCountRef (tick mode req (Some lms) w h st) = 0"
    if "\<not> valid (checkLandmarkQualityForMode lms w h mode) \<and> goodFrameCountRef st \<le> 2"
    using that by (simp add: tick_counter_Some)
  have d: "goodFrameCountRef (tick mode req (Some lms) w h st) = req"
    if "valid (checkLandmarkQualityForMode lms w h mode) \<and> req \<le> goodFrameCountRef st + 1"
    using that by (simp add: tick_counter_Some)
  from a b c d show ?thesis by blast
qed

lemma run3_count:
  "goodFrameCountRef (run (Scan FullBody) 30
      [(Some goodFrame, 640, 480), (Some goodFrame, 640, 480), (Some goodFrame, 640, 480),
       (Some headCutFrame, 640, 480)] initialView) = 1"
  by (simp add: tick_counter_Some goodFrame_accepted headCutFrame_rejected initialView_def)

theorem counter_in_range_witness:
  "(0::int) \<le> 30
   \<and> goodFrameCountRef (run (Scan FullBody) 30
      [(Some goodFrame, 640, 480), (Some goodFrame, 640, 480), (Some goodFrame, 640, 480),
       (Some headCutFrame, 640, 480)] initialView) = 1
   \<and> \<not> valid (checkLandmarkQualityForMode headCutFrame 640 480 (Scan FullBody))
   \<and> goodFrameCountRef initialView \<le> 2
   \<and> goodFrameCountRef (tick (Scan FullBody) 30 (Some headCutFrame) 640 480 initialView) = 0
   \<and> valid (checkLandmarkQualityForMode goodFrame 640 480 (Scan FullBody))
   \<and> 30 \<le> goodFrameCountRef (initialView\<lparr>goodFrameCountRef := 30\<rparr>) + 1
   \<and> goodFrameCountRef (tick (Scan FullBody) 30 (Some goodFrame) 640 480
        (initialView\<lparr>goodFrameCountRef := 30\<rparr>)) = 30"
proof -
  have p: "(0::int) \<le> 30" by simp
  have i: "goodFrameCountRef initialView \<le> 2" by (simp add: initialView_def)
  have f: "30 \<le> goodFrameCountRef (initialView\<lparr>goodFrameCountRef := 30\<rparr>) + 1" by simp
  from counter_in_range [OF p, of _ _ initialView _ _ _ headCutFrame] headCutFrame_rejected i
  have a: "goodFrameCountRef (tick (Scan FullBody) 30 (Some headCutFrame) 640 480 initialView) = 0"
    by blast
  from counter_in_range [OF p, of _ _ "initialView\<lparr>goodFrameCountRef := 30\<rparr>" _ _ _ goodFrame]
    goodFrame_accepted f
  have b: "goodFrameCountRef (tick (Scan FullBody) 30 (Some goodFrame) 640 480
        (initialView\<lparr>goodFrameCountRef := 30\<rparr>)) = 30"
    by blast
  from p i f a b run3_count headCutFrame_rejected goodFrame_accepted show ?thesis by blast
qed

text \<open>
  Claim C3, amended. An accepted frame sets the counter to \<open>min (counter + 1)
  requiredGoodFrames\<close>; a rejected frame sets it to \<open>max 0 (counter - 2)\<close>: it takes 2 off but
  never goes below 0. The ready signal is on after an accepted frame that brings the counter
  to the threshold and off after a rejected frame that leaves it below; in a session with a
  threshold of at least 1 the signal is on exactly when the counter is at the threshold.
\<close>

theorem capture_counter_rule:
  fixes mode :: CameraMode and req :: int and lms :: "Landmark list" and w h :: real
    and st :: CameraView
  defines "q \<equiv> checkLandmarkQualityForMode lms w h mode"
  defines "st' \<equiv> tick mode req (Some lms) w h st"
  shows "(valid q \<longrightarrow> goodFrameCountRef st' = min (goodFrameCountRef st + 1) req)
   \<and> (\<not> valid q \<longrightarrow> goodFrameCountRef st' = max 0 (goodFrameCountRef st - 2))
   \<and> (valid q \<and> req \<le> goodFrameCountRef st' \<longrightarrow> canCapture st')
   \<and> (\<not> valid q \<and> goodFrameCountRef st' < req \<longrightarrow> \<not> canCapture st')
   \<and> (1 \<le> req \<longrightarrow>
        canCapture (run mode req frames initialView) =
          (req \<le> goodFrameCountRef (run mode req frames initialView)))"
proof -
  have inv: "canCapture (run mode req frames initialView) =
          (req \<le> goodFrameCountRef (run mode req frames initialView))" if "1 \<le> req"
    using run_readyIffFull [OF that initialView_readyIffFull [OF that], of mode frames]
    by (simp add: readyIffFull_def)
  show ?thesis
    unfolding q_def st'_def using inv
    by (auto simp: tick_counter_Some tick_canCapture_Some)
qed

theorem capture_counter_rule_witness:
  "valid (checkLandmarkQualityForMode goodFrame 640 480 (Scan FullBody))
   \<and> goodFrameCountRef (tick (Scan FullBody) 30 (Some goodFrame) 640 480
        (initialView\<lparr>goodFrameCountRef := 29\<rparr>)) = 30
   \<and> canCapture (tick (Scan FullBody) 30 (Some goodFrame) 640 480
        (initialView\<lparr>goodFrameCountRef := 29\<rparr>))
   \<and> \<not> valid (checkLandmarkQualityForMode headCutFrame 640 480 (Scan FullBody))
   \<and> goodFrameCountRef (tick (Scan FullBody) 30 (Some headCutFrame) 640 480
        (initialView\<lparr>goodFrameCountRef := 30, canCapture := True\<rparr>)) = 28
   \<and> \<not> canCapture (tick (Scan FullBody) 30 (Some headCutFrame) 640 480
        (initialView\<lparr>goodFrameCountRef := 30, canCapture := True\<rparr>))
   \<and> (1::int) \<le> 30
   \<and> \<not> canCapture (run (Scan FullBody) 30
      [(Some goodFrame, 640, 480), (Some goodFrame, 640, 480), (Some goodFrame, 640, 480),
       (Some headCutFrame, 640, 480)] initialView)"
proof -
  have p: "(1::int) \<le> 30" by simp
  note g = capture_counter_rule [of goodFrame 640 480 "Scan FullBody" 30
      "initialView\<lparr>goodFrameCountRef := 29\<rparr>"
      "[(Some goodFrame, 640, 480), (Some goodFrame, 640, 480), (Some goodFrame, 640, 480),
       (Some headCutFrame, 640, 480)]"]
  note b = capture_counter_rule [of headCutFrame 640 480 "Scan FullBody" 30
      "initialView\<lparr>goodFrameCountRef := 30, canCapture := True\<rparr>" "[]"]
  from g goodFrame_accepted
  have g1: "goodFrameCountRef (tick (Scan FullBody) 30 (Some goodFrame) 640 480
        (initialView\<lparr>goodFrameCountRef := 29\<rparr>)) = 30"
    by simp
  with g goodFrame_accepted
  have g2: "canCapture (tick (Scan FullBody) 30 (Some goodFrame) 640 480
        (initialView\<lparr>goodFrameCountRef := 29\<rparr>))"
    by simp
  from b headCutFrame_rejected
  have b1: "goodFrameCountRef (tick (Scan FullBody) 30 (Some headCutFrame) 640 480
        (initialView\<lparr>goodFrameCountRef := 30, canCapture := True\<rparr>)) = 28"
    by simp
  with b headCutFrame_rejected
  have b2: "\<not> canCapture (tick (Scan FullBody) 30 (Some headCutFrame) 640 480
        (initialView\<lparr>goodFrameCountRef := 30, canCapture := True\<rparr>))"
    by simp
  from g p run3_count
  have r: "\<not> canCapture (run (Scan FullBody) 30
      [(Some goodFrame, 640, 480), (Some goodFrame, 640, 480), (Some goodFrame, 640, 480),
       (Some headCutFrame, 640, 480)] initialView)"
    by simp
  from goodFrame_accepted headCutFrame_rejected g1 g2 b1 b2 p r show ?thesis by blast
qed

text \<open>
  The claim as first stated (every rejected frame takes 2 off the counter) fails at a counter
  of 0: the rejected frame leaves it at 0, not at \<open>- 2\<close>.
\<close>

theorem capture_counter_rule_counterexample:
  "\<not> valid (checkLandmarkQualityForMode headCutFrame 640 480 (Scan FullBody))
   \<and> goodFrameCountRef initialView = 0
   \<and> goodFrameCountRef (tick (Scan FullBody) 30 (Some headCutFrame) 640 480 initialView) = 0
   \<and> goodFrameCountRef (tick (Scan FullBody) 30 (Some headCutFrame) 640 480 initialView)
        \<noteq> goodFrameCountRef initialView - 2"
  using headCutFrame_rejected by (simp add: tick_counter_Some initialView_def)

end
